theory Spec2Isabelle
  imports Main "HOL-Library.Word" "HOL-Library.List_Lexorder"
begin

unbundle bit_operations_syntax

section \<open>JavaScript values\<close>

text \<open>
  A JavaScript string is a sequence of UTF-16 code units; typed arrays and array buffers
  are sequences of bytes.  An optional property of a configuration object is \<open>None\<close>
  when it is \<open>undefined\<close>.
\<close>

type_synonym byte = "8 word"
type_synonym uint32 = "32 word"
type_synonym jsstring = "16 word list"

definition js :: "string \<Rightarrow> jsstring" where
  "js s = map (\<lambda>c. of_nat (of_char c)) s"

datatype js_error = JsError (err_name: jsstring) (err_message: jsstring)

text \<open>\<open>new Error(msg)\<close>: an exception whose name is \<open>Error\<close>.\<close>

definition new_Error :: "jsstring \<Rightarrow> js_error" where
  "new_Error msg = JsError (js ''Error'') msg"

text \<open>A value inside a template literal: \<open>undefined\<close> prints as the word itself.\<close>

definition template :: "jsstring option \<Rightarrow> jsstring" where
  "template v = (case v of None \<Rightarrow> js ''undefined'' | Some s \<Rightarrow> s)"

text \<open>Truthiness of a string-or-undefined value, and \<open>v || d\<close> for a string default.\<close>

definition truthy :: "jsstring option \<Rightarrow> bool" where
  "truthy v = (case v of None \<Rightarrow> False | Some s \<Rightarrow> s \<noteq> [])"

definition or_default :: "jsstring option \<Rightarrow> jsstring \<Rightarrow> jsstring" where
  "or_default v d = (case v of None \<Rightarrow> d | Some s \<Rightarrow> if s = [] then d else s)"

definition endsWith :: "jsstring \<Rightarrow> jsstring \<Rightarrow> bool" where
  "endsWith s suffix = (length suffix \<le> length s \<and> drop (length s - length suffix) s = suffix)"

subsection \<open>TextEncoder\<close>

text \<open>
  \<open>TextEncoder.encode\<close> first converts the string to scalar values (an unpaired
  surrogate becomes U+FFFD), then encodes each scalar value in UTF-8.
\<close>

definition is_lead_surrogate :: "16 word \<Rightarrow> bool" where
  "is_lead_surrogate c \<longleftrightarrow> 0xD800 \<le> c \<and> c \<le> 0xDBFF"

definition is_trail_surrogate :: "16 word \<Rightarrow> bool" where
  "is_trail_surrogate c \<longleftrightarrow> 0xDC00 \<le> c \<and> c \<le> 0xDFFF"

fun to_scalar_values :: "jsstring \<Rightarrow> nat list" where
  "to_scalar_values [] = []"
| "to_scalar_values [c] =
     (if is_lead_surrogate c \<or> is_trail_surrogate c then [0xFFFD] else [unat c])"
| "to_scalar_values (c # d # cs) =
     (if is_lead_surrogate c then
        (if is_trail_surrogate d
         then (0x10000 + (unat c - 0xD800) * 0x400 + (unat d - 0xDC00)) # to_scalar_values cs
         else 0xFFFD # to_scalar_values (d # cs))
      else if is_trail_surrogate c then 0xFFFD # to_scalar_values (d # cs)
      else unat c # to_scalar_values (d # cs))"

definition utf8_encode_cp :: "nat \<Rightarrow> byte list" where
  "utf8_encode_cp cp =
     (if cp < 0x80 then [of_nat cp]
      else if cp < 0x800 then [of_nat (0xC0 + cp div 0x40), of_nat (0x80 + cp mod 0x40)]
      else if cp < 0x10000 then
        [of_nat (0xE0 + cp div 0x1000), of_nat (0x80 + cp div 0x40 mod 0x40),
         of_nat (0x80 + cp mod 0x40)]
      else
        [of_nat (0xF0 + cp div 0x40000), of_nat (0x80 + cp div 0x1000 mod 0x40),
         of_nat (0x80 + cp div 0x40 mod 0x40), of_nat (0x80 + cp mod 0x40)])"

definition TextEncoder_encode :: "jsstring \<Rightarrow> byte list" where
  "TextEncoder_encode s = concat (map utf8_encode_cp (to_scalar_values s))"

text \<open>
  \<open>encoder.encode(v)\<close> for a value that may be \<open>undefined\<close>: the argument then takes its
  default, the empty string, and no byte is produced.
\<close>

definition TextEncoder_encode_arg :: "jsstring option \<Rightarrow> byte list" where
  "TextEncoder_encode_arg v = TextEncoder_encode (case v of None \<Rightarrow> [] | Some s \<Rightarrow> s)"

subsection \<open>File and ArrayBuffer arguments\<close>

text \<open>
  What an upload or an encryption is given: a \<open>File\<close> (name, MIME type, modification
  time, contents) or an \<open>ArrayBuffer\<close>.
\<close>

datatype file_input = FileObject jsstring jsstring nat "byte list" | Buffer "byte list"

fun file_bytes :: "file_input \<Rightarrow> byte list" where
  "file_bytes (FileObject name mimeType lastModified contents) = contents"
| "file_bytes (Buffer contents) = contents"

subsection \<open>Number.prototype.toString(16) and String.prototype.padStart\<close>

definition hex_digit_lower :: "nat \<Rightarrow> 16 word" where
  "hex_digit_lower n = js ''0123456789abcdef'' ! n"

function Number_toString16 :: "nat \<Rightarrow> jsstring" where
  "Number_toString16 n =
     (if n < 16 then [hex_digit_lower n]
      else Number_toString16 (n div 16) @ [hex_digit_lower (n mod 16)])"
  by pat_completeness auto
termination
  by (relation "measure id") auto

declare Number_toString16.simps [simp del]

text \<open>\<open>s.padStart(targetLength, padChar)\<close> for a pad string of one character.\<close>

definition padStart :: "nat \<Rightarrow> 16 word \<Rightarrow> jsstring \<Rightarrow> jsstring" where
  "padStart targetLength padChar s = replicate (targetLength - length s) padChar @ s"

text \<open>
  \<open>Array.from(new Uint8Array(buf)).map(b => b.toString(16).padStart(2, '0')).join('')\<close>,
  the idiom both clients and the MD5 class use to print a digest.
\<close>

definition bytes_to_hex :: "byte list \<Rightarrow> jsstring" where
  "bytes_to_hex bs = concat (map (\<lambda>b. padStart 2 0x30 (Number_toString16 (unat b))) bs)"

subsection \<open>TextDecoder\<close>

text \<open>
  The UTF-8 decoder of the Encoding standard, as a state machine over the bytes: the code
  point under construction, the number of continuation bytes still needed, and the
  bounds for the next continuation byte.  A malformed sequence yields U+FFFD, and the
  offending byte is read again as the start of a sequence.
\<close>

function utf8_decoder :: "nat \<Rightarrow> nat \<Rightarrow> nat \<Rightarrow> nat \<Rightarrow> byte list \<Rightarrow> nat list" where
  "utf8_decoder cp needed lower upper [] = (if needed \<noteq> 0 then [0xFFFD] else [])"
| "utf8_decoder cp needed lower upper (b # bs) =
     (let byte = unat b in
      if needed = 0 then
        (if byte \<le> 0x7F then byte # utf8_decoder 0 0 0x80 0xBF bs
         else if 0xC2 \<le> byte \<and> byte \<le> 0xDF then utf8_decoder (byte mod 0x20) 1 0x80 0xBF bs
         else if 0xE0 \<le> byte \<and> byte \<le> 0xEF then
           utf8_decoder (byte mod 0x10) 2 (if byte = 0xE0 then 0xA0 else 0x80)
             (if byte = 0xED then 0x9F else 0xBF) bs
         else if 0xF0 \<le> byte \<and> byte \<le> 0xF4 then
           utf8_decoder (byte mod 0x08) 3 (if byte = 0xF0 then 0x90 else 0x80)
             (if byte = 0xF4 then 0x8F else 0xBF) bs
         else 0xFFFD # utf8_decoder 0 0 0x80 0xBF bs)
      else if \<not> (lower \<le> byte \<and> byte \<le> upper) then
        0xFFFD # utf8_decoder 0 0 0x80 0xBF (b # bs)
      else
        (let cp' = cp * 0x40 + byte mod 0x40 in
         if needed = 1 then cp' # utf8_decoder 0 0 0x80 0xBF bs
         else utf8_decoder cp' (needed - 1) 0x80 0xBF bs))"
  by pat_completeness auto
termination
  by (relation "measure (\<lambda>(cp, needed, lower, upper, bs). 2 * length bs + (if needed = 0 then 0 else 1))")
    auto

text \<open>A code point as UTF-16 code units.\<close>

definition utf16_encode_cp :: "nat \<Rightarrow> jsstring" where
  "utf16_encode_cp cp =
     (if cp < 0x10000 then [of_nat cp]
      else [of_nat (0xD800 + (cp - 0x10000) div 0x400), of_nat (0xDC00 + (cp - 0x10000) mod 0x400)])"

text \<open>
  \<open>new TextDecoder().decode(bytes)\<close>: UTF-8, not fatal, and \<open>ignoreBOM\<close> is false, so a
  leading U+FEFF is removed from the output.
\<close>

definition TextDecoder_decode :: "byte list \<Rightarrow> jsstring" where
  "TextDecoder_decode bytes =
     (let cps = utf8_decoder 0 0 0x80 0xBF bytes;
          cps = (case cps of [] \<Rightarrow> [] | c # rest \<Rightarrow> if c = 0xFEFF then rest else c # rest)
      in concat (map utf16_encode_cp cps))"

subsection \<open>btoa and atob\<close>

text \<open>
  \<open>btoa\<close> takes a binary string (every code unit at most \<open>0xFF\<close>, otherwise it throws
  \<open>InvalidCharacterError\<close>) and encodes its bytes in base64 with padding.
\<close>

definition base64_alphabet :: jsstring where
  "base64_alphabet = js ''ABCDEFGHIJKLMNOPQRSTUVWXYZabcdefghijklmnopqrstuvwxyz0123456789+/''"

definition base64_char :: "nat \<Rightarrow> 16 word" where
  "base64_char n = base64_alphabet ! n"

fun base64_encode :: "byte list \<Rightarrow> jsstring" where
  "base64_encode [] = []"
| "base64_encode [a] =
     [base64_char (unat a div 4), base64_char (unat a mod 4 * 16), 0x3D, 0x3D]"
| "base64_encode [a, b] =
     [base64_char (unat a div 4), base64_char (unat a mod 4 * 16 + unat b div 16),
      base64_char (unat b mod 16 * 4), 0x3D]"
| "base64_encode (a # b # c # rest) =
     [base64_char (unat a div 4), base64_char (unat a mod 4 * 16 + unat b div 16),
      base64_char (unat b mod 16 * 4 + unat c div 64), base64_char (unat c mod 64)]
     @ base64_encode rest"

definition InvalidCharacterError :: js_error where
  "InvalidCharacterError =
     JsError (js ''InvalidCharacterError'') (js ''The string contains invalid characters.'')"

definition btoa :: "jsstring \<Rightarrow> js_error + jsstring" where
  "btoa s =
     (if list_all (\<lambda>c. c \<le> 0xFF) s then Inr (base64_encode (map ucast s))
      else Inl InvalidCharacterError)"

text \<open>
  \<open>atob\<close> is the forgiving base64 decoder: ASCII whitespace is removed; when the length
  is a multiple of 4, one or two trailing \<open>=\<close> are removed; a length of 1 modulo 4 or a
  character outside the alphabet is an error; leftover bits of the last group are dropped.
\<close>

definition is_ascii_whitespace :: "16 word \<Rightarrow> bool" where
  "is_ascii_whitespace c \<longleftrightarrow> c = 0x09 \<or> c = 0x0A \<or> c = 0x0C \<or> c = 0x0D \<or> c = 0x20"

fun index_of :: "'a list \<Rightarrow> 'a \<Rightarrow> nat option" where
  "index_of [] x = None"
| "index_of (y # ys) x = (if x = y then Some 0 else map_option Suc (index_of ys x))"

definition base64_value :: "16 word \<Rightarrow> nat option" where
  "base64_value c = index_of base64_alphabet c"

fun base64_decode_sextets :: "nat list \<Rightarrow> byte list" where
  "base64_decode_sextets (a # b # c # d # rest) =
     [of_nat (a * 4 + b div 16), of_nat (b mod 16 * 16 + c div 4), of_nat (c mod 4 * 64 + d)]
     @ base64_decode_sextets rest"
| "base64_decode_sextets [a, b, c] = [of_nat (a * 4 + b div 16), of_nat (b mod 16 * 16 + c div 4)]"
| "base64_decode_sextets [a, b] = [of_nat (a * 4 + b div 16)]"
| "base64_decode_sextets rest = []"

definition strip_base64_padding :: "jsstring \<Rightarrow> jsstring" where
  "strip_base64_padding d =
     (if length d mod 4 = 0 then
        (if endsWith d (js ''=='') then take (length d - 2) d
         else if endsWith d (js ''='') then take (length d - 1) d
         else d)
      else d)"

definition atob :: "jsstring \<Rightarrow> js_error + jsstring" where
  "atob data =
     (let d = filter (\<lambda>c. \<not> is_ascii_whitespace c) data;
          d = strip_base64_padding d
      in if length d mod 4 = 1 then Inl InvalidCharacterError
         else if \<not> list_all (\<lambda>c. base64_value c \<noteq> None) d then Inl InvalidCharacterError
         else Inr (map ucast (base64_decode_sextets (map (\<lambda>c. the (base64_value c)) d))))"

subsection \<open>encodeURIComponent, String.prototype.replace and URLSearchParams\<close>

definition is_ascii_alphanumeric :: "16 word \<Rightarrow> bool" where
  "is_ascii_alphanumeric c \<longleftrightarrow>
     (0x30 \<le> c \<and> c \<le> 0x39) \<or> (0x41 \<le> c \<and> c \<le> 0x5A) \<or> (0x61 \<le> c \<and> c \<le> 0x7A)"

definition hex_digit_upper :: "nat \<Rightarrow> 16 word" where
  "hex_digit_upper n = js ''0123456789ABCDEF'' ! n"

definition percent_encode_byte :: "byte \<Rightarrow> jsstring" where
  "percent_encode_byte b = [0x25, hex_digit_upper (unat b div 16), hex_digit_upper (unat b mod 16)]"

text \<open>
  ECMAScript's \<open>encodeURIComponent\<close>: the characters of \<open>uriUnescaped\<close> (letters, digits
  and \<open>- _ . ! ~ * ' ( )\<close>) are copied; any other code point is written as the
  percent-encoded bytes of its UTF-8 form; an unpaired surrogate throws \<open>URIError\<close>.
\<close>

definition uriUnescaped :: "16 word \<Rightarrow> bool" where
  "uriUnescaped c \<longleftrightarrow> is_ascii_alphanumeric c \<or> c \<in> set (js ''-_.!~*'' @ [0x27] @ js ''()'')"

definition URIError :: js_error where
  "URIError = JsError (js ''URIError'') (js ''URI malformed'')"

fun encodeURIComponent :: "jsstring \<Rightarrow> js_error + jsstring" where
  "encodeURIComponent [] = Inr []"
| "encodeURIComponent (c # cs) =
     (if uriUnescaped c then
        (case encodeURIComponent cs of Inl e \<Rightarrow> Inl e | Inr r \<Rightarrow> Inr (c # r))
      else if is_trail_surrogate c then Inl URIError
      else if is_lead_surrogate c then
        (case cs of
           [] \<Rightarrow> Inl URIError
         | d # ds \<Rightarrow>
             if is_trail_surrogate d then
               (case encodeURIComponent ds of
                  Inl e \<Rightarrow> Inl e
                | Inr r \<Rightarrow>
                    Inr (concat (map percent_encode_byte
                           (utf8_encode_cp (0x10000 + (unat c - 0xD800) * 0x400 + (unat d - 0xDC00))))
                         @ r))
             else Inl URIError)
      else
        (case encodeURIComponent cs of
           Inl e \<Rightarrow> Inl e
         | Inr r \<Rightarrow> Inr (concat (map percent_encode_byte (utf8_encode_cp (unat c))) @ r)))"

text \<open>\<open>s.replace(/%2F/g, '/')\<close>: every occurrence, left to right.\<close>

fun replace_percent_2F :: "jsstring \<Rightarrow> jsstring" where
  "replace_percent_2F (a # b # c # rest) =
     (if a = 0x25 \<and> b = 0x32 \<and> c = 0x46 then 0x2F # replace_percent_2F rest
      else a # replace_percent_2F (b # c # rest))"
| "replace_percent_2F s = s"

text \<open>
  \<open>new URLSearchParams(record).toString()\<close>: the application/x-www-form-urlencoded
  serializer over the entries in insertion order.  Letters, digits and \<open>* - . _\<close> are
  copied, a space becomes \<open>+\<close>, every other byte of the UTF-8 form is percent-encoded.
\<close>

definition urlencoded_byte :: "byte \<Rightarrow> jsstring" where
  "urlencoded_byte b =
     (if b = 0x20 then [0x2B]
      else if is_ascii_alphanumeric (ucast b) \<or> b = 0x2A \<or> b = 0x2D \<or> b = 0x2E \<or> b = 0x5F
      then [ucast b]
      else percent_encode_byte b)"

definition urlencoded_string :: "jsstring \<Rightarrow> jsstring" where
  "urlencoded_string s = concat (map urlencoded_byte (TextEncoder_encode s))"

fun join_with :: "jsstring \<Rightarrow> jsstring list \<Rightarrow> jsstring" where
  "join_with sep [] = []"
| "join_with sep [x] = x"
| "join_with sep (x # y # ys) = x @ sep @ join_with sep (y # ys)"

definition URLSearchParams_toString :: "(jsstring \<times> jsstring) list \<Rightarrow> jsstring" where
  "URLSearchParams_toString entries =
     join_with (js ''&'')
       (map (\<lambda>(name, v). urlencoded_string name @ js ''='' @ urlencoded_string v) entries)"

subsection \<open>Number.prototype.toString() and String.prototype.trim\<close>

text \<open>The decimal form of a non-negative integer below \<open>10^21\<close>.\<close>

function Number_toString :: "nat \<Rightarrow> jsstring" where
  "Number_toString n =
     (if n < 10 then [of_nat (0x30 + n)]
      else Number_toString (n div 10) @ [of_nat (0x30 + n mod 10)])"
  by pat_completeness auto
termination
  by (relation "measure id") auto

declare Number_toString.simps [simp del]

text \<open>ECMAScript white space and line terminators, as \<open>trim\<close> removes them.\<close>

definition is_js_whitespace :: "16 word \<Rightarrow> bool" where
  "is_js_whitespace c \<longleftrightarrow>
     c \<in> {0x09, 0x0A, 0x0B, 0x0C, 0x0D, 0x20, 0xA0, 0x1680, 0x2028, 0x2029, 0x202F, 0x205F,
          0x3000, 0xFEFF} \<or> (0x2000 \<le> c \<and> c \<le> 0x200A)"

definition trim :: "jsstring \<Rightarrow> jsstring" where
  "trim s = rev (dropWhile is_js_whitespace (rev (dropWhile is_js_whitespace s)))"

section \<open>Platform primitives\<close>

text \<open>
  The Web Crypto primitives and the URL parser are not code of the repository: they are
  parameters of the model.
  \<^item> \<open>subtle_digest_sha256\<close> is \<open>crypto.subtle.digest('SHA-256', _)\<close>;
  \<^item> \<open>subtle_sign_hmac_sha256 key data\<close> is \<open>crypto.subtle.sign('HMAC', _, data)\<close> under
    the raw key imported for HMAC with SHA-256;
  \<^item> \<open>subtle_deriveKey_pbkdf2 passphrase salt iterations length\<close> imports the passphrase
    bytes for PBKDF2 and derives an AES-GCM key of \<open>length\<close> bits with SHA-256;
  \<^item> \<open>subtle_encrypt_aes_gcm key iv tagLength data\<close> and \<open>subtle_decrypt_aes_gcm\<close> are
    \<open>crypto.subtle.encrypt\<close> and \<open>crypto.subtle.decrypt\<close> with AES-GCM;
  \<^item> \<open>url_host s\<close> is \<open>new URL(s).host\<close>;
  \<^item> \<open>window_MD5\<close> tells whether the page has loaded the MD5 class, that is whether
    the global \<open>window.MD5\<close> is defined.
  The derivation, the cipher and the URL parser may throw.
\<close>

record platform =
  subtle_digest_sha256 :: "byte list \<Rightarrow> byte list"
  subtle_sign_hmac_sha256 :: "byte list \<Rightarrow> byte list \<Rightarrow> byte list"
  subtle_deriveKey_pbkdf2 :: "byte list \<Rightarrow> byte list \<Rightarrow> nat \<Rightarrow> nat \<Rightarrow> js_error + byte list"
  subtle_encrypt_aes_gcm :: "byte list \<Rightarrow> byte list \<Rightarrow> nat \<Rightarrow> byte list \<Rightarrow> js_error + byte list"
  subtle_decrypt_aes_gcm :: "byte list \<Rightarrow> byte list \<Rightarrow> nat \<Rightarrow> byte list \<Rightarrow> js_error + byte list"
  url_host :: "jsstring \<Rightarrow> js_error + jsstring"
  window_MD5 :: bool

section \<open>The MD5 class\<close>

text \<open>\<open>(a + b) >>> 0\<close> and \<open>((value << amount) | (value >>> (32 - amount))) >>> 0\<close>.\<close>

definition addUint32 :: "uint32 \<Rightarrow> uint32 \<Rightarrow> uint32" where
  "addUint32 a b = a + b"

definition leftRotate :: "uint32 \<Rightarrow> nat \<Rightarrow> uint32" where
  "leftRotate v amount = push_bit (amount mod 32) v OR drop_bit ((32 - amount) mod 32) v"

definition getK :: "nat \<Rightarrow> uint32" where
  "getK i = [
    0xD76AA478, 0xE8C7B756, 0x242070DB, 0xC1BDCEEE, 0xF57C0FAF, 0x4787C62A, 0xA8304613, 0xFD469501,
    0x698098D8, 0x8B44F7AF, 0xFFFF5BB1, 0x895CD7BE, 0x6B901122, 0xFD987193, 0xA679438E, 0x49B40821,
    0xF61E2562, 0xC040B340, 0x265E5A51, 0xE9B6C7AA, 0xD62F105D, 0x02441453, 0xD8A1E681, 0xE7D3FBC8,
    0x21E1CDE6, 0xC33707D6, 0xF4D50D87, 0x455A14ED, 0xA9E3E905, 0xFCEFA3F8, 0x676F02D9, 0x8D2A4C8A,
    0xFFFA3942, 0x8771F681, 0x6D9D6122, 0xFDE5380C, 0xA4BEEA44, 0x4BDECFA9, 0xF6BB4B60, 0xBEBFBC70,
    0x289B7EC6, 0xEAA127FA, 0xD4EF3085, 0x04881D05, 0xD9D4D039, 0xE6DB99E5, 0x1FA27CF8, 0xC4AC5665,
    0xF4292244, 0x432AFF97, 0xAB9423A7, 0xFC93A039, 0x655B59C3, 0x8F0CCC92, 0xFFEFF47D, 0x85845DD1,
    0x6FA87E4F, 0xFE2CE6E0, 0xA3014314, 0x4E0811A1, 0xF7537E82, 0xBD3AF235, 0x2AD7D2BB, 0xEB86D391
   ] ! i"

definition getR :: "nat \<Rightarrow> nat" where
  "getR i = [
    7, 12, 17, 22, 7, 12, 17, 22, 7, 12, 17, 22, 7, 12, 17, 22,
    5, 9, 14, 20, 5, 9, 14, 20, 5, 9, 14, 20, 5, 9, 14, 20,
    4, 11, 16, 23, 4, 11, 16, 23, 4, 11, 16, 23, 4, 11, 16, 23,
    6, 10, 15, 21, 6, 10, 15, 21, 6, 10, 15, 21, 6, 10, 15, 21
   ] ! i"

text \<open>\<open>DataView.getUint32(off, true)\<close> and \<open>DataView.setUint32(off, v, true)\<close>.\<close>

definition getUint32 :: "byte list \<Rightarrow> nat \<Rightarrow> uint32" where
  "getUint32 buf off =
     ucast (buf ! off) OR push_bit 8 (ucast (buf ! (off + 1)))
       OR push_bit 16 (ucast (buf ! (off + 2))) OR push_bit 24 (ucast (buf ! (off + 3)))"

definition setUint32 :: "byte list \<Rightarrow> nat \<Rightarrow> uint32 \<Rightarrow> byte list" where
  "setUint32 buf off v =
     buf[off := ucast v, off + 1 := ucast (drop_bit 8 v),
         off + 2 := ucast (drop_bit 16 v), off + 3 := ucast (drop_bit 24 v)]"

text \<open>The field \<open>this.h\<close>: four 32-bit numbers.\<close>

type_synonym md5_state = "uint32 \<times> uint32 \<times> uint32 \<times> uint32"

definition MD5_constructor :: md5_state where
  "MD5_constructor = (0x67452301, 0xEFCDAB89, 0x98BADCFE, 0x10325476)"

text \<open>The main loop of \<open>processChunk\<close>, from round \<open>i\<close> on.\<close>

function mainLoop :: "uint32 list \<Rightarrow> nat \<Rightarrow> md5_state \<Rightarrow> md5_state" where
  "mainLoop w i (a, b, c, d) =
     (if i < 64 then
        (let (f, g) =
               (if i < 16 then ((b AND c) OR (NOT b AND d), i)
                else if i < 32 then ((d AND b) OR (NOT d AND c), (5 * i + 1) mod 16)
                else if i < 48 then (b XOR c XOR d, (3 * i + 5) mod 16)
                else (c XOR (b OR NOT d), (7 * i) mod 16));
             temp = d;
             b' = addUint32 b (leftRotate
                    (addUint32 (addUint32 a f) (addUint32 (getK i) (w ! g))) (getR i))
         in mainLoop w (i + 1) (temp, b', b, c))
      else (a, b, c, d))"
  by pat_completeness auto
termination
  by (relation "measure (\<lambda>(w, i, s). 64 - i)") auto

declare mainLoop.simps [simp del]

definition MD5_processChunk :: "md5_state \<Rightarrow> byte list \<Rightarrow> md5_state" where
  "MD5_processChunk h chunk =
     (let w = map (\<lambda>i. getUint32 chunk (i * 4)) [0..<16];
          (h0, h1, h2, h3) = h;
          (a, b, c, d) = mainLoop w 0 (h0, h1, h2, h3)
      in (addUint32 h0 a, addUint32 h1 b, addUint32 h2 c, addUint32 h3 d))"

text \<open>The loop of \<open>updateBytes\<close> over the 64-byte slices of the padded message.\<close>

function chunkLoop :: "byte list \<Rightarrow> nat \<Rightarrow> nat \<Rightarrow> md5_state \<Rightarrow> md5_state" where
  "chunkLoop finalBytes totalLen i h =
     (if i < totalLen
      then chunkLoop finalBytes totalLen (i + 64)
             (MD5_processChunk h (take 64 (drop i finalBytes)))
      else h)"
  by pat_completeness auto
termination
  by (relation "measure (\<lambda>(f, t, i, h). t - i)") auto

declare chunkLoop.simps [simp del]

definition MD5_updateBytes :: "md5_state \<Rightarrow> byte list \<Rightarrow> md5_state" where
  "MD5_updateBytes h bytes =
     (let msgLen = length bytes;
          paddedBytes = bytes @ [0x80];
          msgBitLen = msgLen * 8;
          paddingLen = nat ((56 - int ((msgLen + 1) mod 64) + 64) mod 64);
          totalLen = msgLen + 1 + paddingLen + 8;
          finalBytes = paddedBytes @ replicate (totalLen - length paddedBytes) 0;
          finalBytes = setUint32 finalBytes (totalLen - 8) (of_nat msgBitLen);
          finalBytes = setUint32 finalBytes (totalLen - 4) (of_nat (msgBitLen div 0x100000000))
      in chunkLoop finalBytes totalLen 0 h)"

definition MD5_digest :: "md5_state \<Rightarrow> byte list" where
  "MD5_digest h = (let (h0, h1, h2, h3) = h in
     setUint32 (setUint32 (setUint32 (setUint32 (replicate 16 0) 0 h0) 4 h1) 8 h2) 12 h3)"

definition MD5_hashBytes :: "byte list \<Rightarrow> byte list" where
  "MD5_hashBytes bytes = MD5_digest (MD5_updateBytes MD5_constructor bytes)"

definition MD5_hexDigest :: "md5_state \<Rightarrow> jsstring" where
  "MD5_hexDigest h = bytes_to_hex (MD5_digest h)"

section \<open>S3Client\<close>

text \<open>The configuration object: every property may be missing.\<close>

record s3_config =
  s3_endpoint :: "jsstring option"
  s3_region :: "jsstring option"
  s3_bucket :: "jsstring option"
  s3_access_key :: "jsstring option"
  s3_secret_key :: "jsstring option"
  path_prefix :: "jsstring option"
  encryption_key :: "jsstring option"

record s3_client =
  config :: s3_config
  serviceName :: jsstring
  algorithm :: jsstring

definition S3Client_constructor :: "s3_config \<Rightarrow> s3_client" where
  "S3Client_constructor cfg =
     (let prefix = or_default (path_prefix cfg) (js ''photos/'');
          prefix = (if prefix \<noteq> [] \<and> \<not> endsWith prefix (js ''/'')
                    then prefix @ js ''/'' else prefix)
      in \<lparr> config = \<lparr> s3_endpoint = s3_endpoint cfg, s3_region = s3_region cfg,
                       s3_bucket = s3_bucket cfg, s3_access_key = s3_access_key cfg,
                       s3_secret_key = s3_secret_key cfg, path_prefix = Some prefix,
                       encryption_key = None \<rparr>,
           serviceName = js ''s3'',
           algorithm = js ''AWS4-HMAC-SHA256'' \<rparr>)"

text \<open>
  The key of \<open>hmacSha256\<close> is a string (encoded first) or an array buffer.  The data is
  handed to \<open>encoder.encode\<close> as it is, so a missing value contributes no byte.
\<close>

datatype hmac_key = KeyString jsstring | KeyBuffer "byte list"

definition hmacSha256 :: "platform \<Rightarrow> hmac_key \<Rightarrow> jsstring option \<Rightarrow> byte list" where
  "hmacSha256 P key data =
     (let keyBuffer = (case key of KeyString s \<Rightarrow> TextEncoder_encode s | KeyBuffer b \<Rightarrow> b);
          dataBuffer = TextEncoder_encode_arg data
      in subtle_sign_hmac_sha256 P keyBuffer dataBuffer)"

definition sha256 :: "platform \<Rightarrow> jsstring \<Rightarrow> jsstring" where
  "sha256 P data = bytes_to_hex (subtle_digest_sha256 P (TextEncoder_encode data))"

definition S3Client_calculateSignature ::
  "platform \<Rightarrow> s3_client \<Rightarrow> jsstring \<Rightarrow> jsstring \<Rightarrow> jsstring" where
  "S3Client_calculateSignature P this stringToSign dateStamp =
     (let kDate = hmacSha256 P (KeyString (js ''AWS4'' @ template (s3_secret_key (config this))))
                    (Some dateStamp);
          kRegion = hmacSha256 P (KeyBuffer kDate) (s3_region (config this));
          kService = hmacSha256 P (KeyBuffer kRegion) (Some (serviceName this));
          kSigning = hmacSha256 P (KeyBuffer kService) (Some (js ''aws4_request''));
          signature = hmacSha256 P (KeyBuffer kSigning) (Some stringToSign)
      in bytes_to_hex signature)"

text \<open>
  The timestamp of a request: \<open>now.toISOString().slice(0, 19).replace(/[-:]/g, '') + 'Z'\<close>,
  where \<open>isoString\<close> is what \<open>now.toISOString()\<close> returned.
\<close>

definition dateString_of :: "jsstring \<Rightarrow> jsstring" where
  "dateString_of isoString = filter (\<lambda>c. c \<noteq> 0x2D \<and> c \<noteq> 0x3A) (take 19 isoString) @ js ''Z''"

definition dateStamp_of :: "jsstring \<Rightarrow> jsstring" where
  "dateStamp_of dateString = take 8 dateString"

text \<open>The pieces of \<open>generatePresignedUrl\<close>, in the order the method computes them.\<close>

definition canonicalUri_of :: "s3_config \<Rightarrow> jsstring \<Rightarrow> js_error + jsstring" where
  "canonicalUri_of cfg key =
     (case encodeURIComponent key of
        Inl e \<Rightarrow> Inl e
      | Inr encoded \<Rightarrow> Inr (js ''/'' @ template (s3_bucket cfg) @ js ''/'' @ replace_percent_2F encoded))"

definition presignedQueryParams ::
  "s3_config \<Rightarrow> jsstring \<Rightarrow> jsstring \<Rightarrow> jsstring \<Rightarrow> jsstring \<Rightarrow> nat \<Rightarrow> (jsstring \<times> jsstring) list" where
  "presignedQueryParams cfg alg service dateString dateStamp expiresIn =
     [(js ''X-Amz-Algorithm'', alg),
      (js ''X-Amz-Credential'',
         template (s3_access_key cfg) @ js ''/'' @ dateStamp @ js ''/'' @ template (s3_region cfg)
           @ js ''/'' @ service @ js ''/aws4_request''),
      (js ''X-Amz-Date'', dateString),
      (js ''X-Amz-Expires'', Number_toString expiresIn),
      (js ''X-Amz-SignedHeaders'', js ''host'')]"

definition canonicalRequest_of ::
  "jsstring \<Rightarrow> jsstring \<Rightarrow> jsstring \<Rightarrow> jsstring \<Rightarrow> jsstring \<Rightarrow> jsstring \<Rightarrow> jsstring" where
  "canonicalRequest_of method canonicalUri canonicalQueryString canonicalHeaders signedHeaders payloadHash =
     join_with (js ''\<newline>'')
       [method, canonicalUri, canonicalQueryString, canonicalHeaders, signedHeaders, payloadHash]"

definition stringToSign_of ::
  "platform \<Rightarrow> jsstring \<Rightarrow> jsstring \<Rightarrow> jsstring \<Rightarrow> jsstring \<Rightarrow> jsstring" where
  "stringToSign_of P alg dateString credentialScope canonicalRequest =
     join_with (js ''\<newline>'') [alg, dateString, credentialScope, sha256 P canonicalRequest]"

definition credentialScope_of :: "s3_config \<Rightarrow> jsstring \<Rightarrow> jsstring \<Rightarrow> jsstring" where
  "credentialScope_of cfg service dateStamp =
     dateStamp @ js ''/'' @ template (s3_region cfg) @ js ''/'' @ service @ js ''/aws4_request''"

definition S3Client_generatePresignedUrl ::
  "platform \<Rightarrow> s3_client \<Rightarrow> jsstring \<Rightarrow> jsstring \<Rightarrow> jsstring \<Rightarrow> nat \<Rightarrow> js_error + jsstring" where
  "S3Client_generatePresignedUrl P this now key method expiresIn =
     (let dateString = dateString_of now;
          dateStamp = dateStamp_of dateString;
          attempt =
            (case canonicalUri_of (config this) key of
               Inl e \<Rightarrow> Inl e
             | Inr canonicalUri \<Rightarrow>
                 (let canonicalQueryString = URLSearchParams_toString
                        (presignedQueryParams (config this) (algorithm this) (serviceName this)
                           dateString dateStamp expiresIn)
                  in case url_host P (template (s3_endpoint (config this))) of
                       Inl e \<Rightarrow> Inl e
                     | Inr host \<Rightarrow>
                         (let canonicalHeaders = js ''host:'' @ host @ js ''\<newline>'';
                              signedHeaders = js ''host'';
                              payloadHash = js ''UNSIGNED-PAYLOAD'';
                              canonicalRequest = canonicalRequest_of method canonicalUri
                                canonicalQueryString canonicalHeaders signedHeaders payloadHash;
                              credentialScope = credentialScope_of (config this) (serviceName this) dateStamp;
                              stringToSign = stringToSign_of P (algorithm this) dateString
                                credentialScope canonicalRequest;
                              signature = S3Client_calculateSignature P this stringToSign dateStamp;
                              finalQueryString = canonicalQueryString @ js ''&X-Amz-Signature='' @ signature
                          in Inr (template (s3_endpoint (config this)) @ canonicalUri @ js ''?''
                                    @ finalQueryString))))
      in case attempt of
           Inl error \<Rightarrow> Inl (new_Error (js ''Failed to generate presigned URL: '' @ err_message error))
         | Inr url \<Rightarrow> Inr url)"

text \<open>
  \<open>generateAuthHeaders\<close>: the \<open>Authorization\<close>, \<open>X-Amz-Date\<close> and \<open>Host\<close> headers of a
  request signed in its headers.
\<close>

definition S3Client_generateAuthHeaders ::
  "platform \<Rightarrow> s3_client \<Rightarrow> jsstring \<Rightarrow> jsstring \<Rightarrow> jsstring \<Rightarrow> (jsstring \<times> jsstring) list
   \<Rightarrow> js_error + (jsstring \<times> jsstring) list" where
  "S3Client_generateAuthHeaders P this now method path queryParams =
     (let dateString = dateString_of now;
          dateStamp = dateStamp_of dateString;
          canonicalQueryString = URLSearchParams_toString queryParams;
          attempt =
            (case url_host P (template (s3_endpoint (config this))) of
               Inl e \<Rightarrow> Inl e
             | Inr host \<Rightarrow>
                 (let canonicalHeaders = js ''host:'' @ host @ js ''\<newline>x-amz-date:'' @ dateString
                        @ js ''\<newline>'';
                      signedHeaders = js ''host;x-amz-date'';
                      payloadHash = js ''UNSIGNED-PAYLOAD'';
                      canonicalRequest = canonicalRequest_of method path canonicalQueryString
                        canonicalHeaders signedHeaders payloadHash;
                      credentialScope = credentialScope_of (config this) (serviceName this) dateStamp;
                      stringToSign = stringToSign_of P (algorithm this) dateString credentialScope
                        canonicalRequest;
                      signature = S3Client_calculateSignature P this stringToSign dateStamp;
                      authorization = algorithm this @ js '' Credential=''
                        @ template (s3_access_key (config this)) @ js ''/'' @ credentialScope
                        @ js '', SignedHeaders='' @ signedHeaders @ js '', Signature='' @ signature
                  in Inr [(js ''Authorization'', authorization), (js ''X-Amz-Date'', dateString),
                          (js ''Host'', host)]))
      in case attempt of
           Inl error \<Rightarrow> Inl (new_Error (js ''Failed to generate auth headers: '' @ err_message error))
         | Inr headers \<Rightarrow> Inr headers)"

text \<open>
  The operations, up to the request they send: the method, the URL, the headers the code
  sets itself and the body.  What the network answers, and the progress callback that
  only reports it, are outside the model.
\<close>

record http_request =
  request_method :: jsstring
  request_url :: jsstring
  request_headers :: "(jsstring \<times> jsstring) list"
  request_body :: "byte list option"

definition S3Client_uploadFile ::
  "platform \<Rightarrow> s3_client \<Rightarrow> jsstring \<Rightarrow> file_input \<Rightarrow> jsstring \<Rightarrow> js_error + http_request" where
  "S3Client_uploadFile P this now file key =
     (let fullKey = template (path_prefix (config this)) @ key
      in case S3Client_generatePresignedUrl P this now fullKey (js ''PUT'') 3600 of
           Inl error \<Rightarrow> Inl (new_Error (js ''Upload failed: '' @ err_message error))
         | Inr presignedUrl \<Rightarrow>
             Inr \<lparr> request_method = js ''PUT'', request_url = presignedUrl,
                   request_headers =
                     (case file of
                        FileObject name mimeType lastModified contents \<Rightarrow>
                          [(js ''Content-Type'',
                            if mimeType \<noteq> [] then mimeType else js ''application/octet-stream'')]
                      | Buffer contents \<Rightarrow> []),
                   request_body = Some (file_bytes file) \<rparr>)"

definition S3Client_downloadFile ::
  "platform \<Rightarrow> s3_client \<Rightarrow> jsstring \<Rightarrow> jsstring \<Rightarrow> js_error + http_request" where
  "S3Client_downloadFile P this now key =
     (let fullKey = template (path_prefix (config this)) @ key
      in case S3Client_generatePresignedUrl P this now fullKey (js ''GET'') 3600 of
           Inl error \<Rightarrow> Inl (new_Error (js ''Download failed: '' @ err_message error))
         | Inr presignedUrl \<Rightarrow>
             Inr \<lparr> request_method = js ''GET'', request_url = presignedUrl, request_headers = [],
                   request_body = None \<rparr>)"

definition S3Client_deleteObject ::
  "platform \<Rightarrow> s3_client \<Rightarrow> jsstring \<Rightarrow> jsstring \<Rightarrow> js_error + http_request" where
  "S3Client_deleteObject P this now key =
     (let fullKey = template (path_prefix (config this)) @ key
      in case S3Client_generatePresignedUrl P this now fullKey (js ''DELETE'') 3600 of
           Inl error \<Rightarrow> Inl (new_Error (js ''Delete failed: '' @ err_message error))
         | Inr presignedUrl \<Rightarrow>
             Inr \<lparr> request_method = js ''DELETE'', request_url = presignedUrl, request_headers = [],
                   request_body = None \<rparr>)"

definition listObjects_params :: "jsstring \<Rightarrow> nat \<Rightarrow> (jsstring \<times> jsstring) list" where
  "listObjects_params fullPrefix maxKeys =
     [(js ''list-type'', js ''2''), (js ''prefix'', fullPrefix), (js ''max-keys'', Number_toString maxKeys)]"

definition S3Client_listObjects ::
  "platform \<Rightarrow> s3_client \<Rightarrow> jsstring \<Rightarrow> jsstring \<Rightarrow> nat \<Rightarrow> js_error + http_request" where
  "S3Client_listObjects P this now prefix maxKeys =
     (let fullPrefix = template (path_prefix (config this)) @ prefix;
          params = listObjects_params fullPrefix maxKeys;
          url = template (s3_endpoint (config this)) @ js ''/'' @ template (s3_bucket (config this))
                  @ js ''?'' @ URLSearchParams_toString params
      in case S3Client_generateAuthHeaders P this now (js ''GET'')
                (js ''/'' @ template (s3_bucket (config this))) params of
           Inl error \<Rightarrow> Inl (new_Error (js ''List objects failed: '' @ err_message error))
         | Inr headers \<Rightarrow>
             Inr \<lparr> request_method = js ''GET'', request_url = url, request_headers = headers,
                   request_body = None \<rparr>)"

text \<open>\<open>validateConfig\<close>: every required field is present and not blank.\<close>

definition validateConfig :: "s3_client \<Rightarrow> bool" where
  "validateConfig this =
     list_all (\<lambda>field. case field (config this) of
                          None \<Rightarrow> False
                        | Some v \<Rightarrow> v \<noteq> [] \<and> trim v \<noteq> [])
       [s3_endpoint, s3_region, s3_bucket, s3_access_key, s3_secret_key]"

section \<open>S3ClientSSE\<close>

record s3_client_sse = s3_client +
  sseKey :: "byte list"

definition generateSSEKey :: "platform \<Rightarrow> jsstring option \<Rightarrow> byte list" where
  "generateSSEKey P passphrase =
     (let data = TextEncoder_encode_arg passphrase;
          hash = subtle_digest_sha256 P data
      in hash)"

definition S3ClientSSE_constructor :: "platform \<Rightarrow> s3_config \<Rightarrow> s3_client_sse" where
  "S3ClientSSE_constructor P cfg =
     \<lparr> config = \<lparr> s3_endpoint = Some (or_default (s3_endpoint cfg) (js ''https://s3.amazonaws.com'')),
                    s3_region = Some (or_default (s3_region cfg) (js ''us-east-1'')),
                    s3_bucket = s3_bucket cfg, s3_access_key = s3_access_key cfg,
                    s3_secret_key = s3_secret_key cfg, path_prefix = None,
                    encryption_key = encryption_key cfg \<rparr>,
        serviceName = js ''s3'',
        algorithm = js ''AWS4-HMAC-SHA256'',
        sseKey = generateSSEKey P (encryption_key cfg) \<rparr>"

definition S3ClientSSE_calculateSignature ::
  "platform \<Rightarrow> s3_client_sse \<Rightarrow> jsstring \<Rightarrow> jsstring \<Rightarrow> jsstring" where
  "S3ClientSSE_calculateSignature P this stringToSign dateStamp =
     (let kDate = hmacSha256 P (KeyString (js ''AWS4'' @ template (s3_secret_key (config this))))
                    (Some dateStamp);
          kRegion = hmacSha256 P (KeyBuffer kDate) (s3_region (config this));
          kService = hmacSha256 P (KeyBuffer kRegion) (Some (serviceName this));
          kSigning = hmacSha256 P (KeyBuffer kService) (Some (js ''aws4_request''));
          signature = hmacSha256 P (KeyBuffer kSigning) (Some stringToSign)
      in bytes_to_hex signature)"

text \<open>\<open>btoa(String.fromCharCode(...bytes))\<close>.\<close>

definition btoa_fromCharCode :: "byte list \<Rightarrow> js_error + jsstring" where
  "btoa_fromCharCode bytes = btoa (map ucast bytes)"

definition calculateMD5 :: "platform \<Rightarrow> byte list \<Rightarrow> js_error + jsstring" where
  "calculateMD5 P key =
     (if \<not> window_MD5 P then Inl (new_Error (js ''MD5 library not loaded''))
      else (let hash = MD5_hashBytes key in btoa_fromCharCode hash))"

definition getSSEHeaders :: "platform \<Rightarrow> s3_client_sse \<Rightarrow> js_error + (jsstring \<times> jsstring) list" where
  "getSSEHeaders P this =
     (let key = sseKey this
      in case btoa_fromCharCode key of
           Inl e \<Rightarrow> Inl e
         | Inr keyBase64 \<Rightarrow>
             (case calculateMD5 P key of
                Inl e \<Rightarrow> Inl e
              | Inr keyMD5 \<Rightarrow>
                  Inr [(js ''x-amz-server-side-encryption-customer-algorithm'', js ''AES256''),
                       (js ''x-amz-server-side-encryption-customer-key'', keyBase64),
                       (js ''x-amz-server-side-encryption-customer-key-MD5'', keyMD5)]))"

definition S3ClientSSE_generatePresignedUrl ::
  "platform \<Rightarrow> s3_client_sse \<Rightarrow> jsstring \<Rightarrow> jsstring \<Rightarrow> jsstring \<Rightarrow> nat \<Rightarrow> js_error + jsstring" where
  "S3ClientSSE_generatePresignedUrl P this now key method expiresIn =
     (let dateString = dateString_of now;
          dateStamp = dateStamp_of dateString;
          attempt =
            (case canonicalUri_of (config this) key of
               Inl e \<Rightarrow> Inl e
             | Inr canonicalUri \<Rightarrow>
                 (let queryParams = presignedQueryParams (config this) (algorithm this)
                        (serviceName this) dateString dateStamp expiresIn;
                      canonicalQueryString = URLSearchParams_toString queryParams
                  in case url_host P (template (s3_endpoint (config this))) of
                       Inl e \<Rightarrow> Inl e
                     | Inr host \<Rightarrow>
                         (let canonicalHeaders = js ''host:'' @ host @ js ''\<newline>'';
                              signedHeaders = js ''host'';
                              payloadHash = js ''UNSIGNED-PAYLOAD'';
                              canonicalRequest = canonicalRequest_of method canonicalUri
                                canonicalQueryString canonicalHeaders signedHeaders payloadHash;
                              credentialScope = credentialScope_of (config this) (serviceName this) dateStamp;
                              stringToSign = stringToSign_of P (algorithm this) dateString
                                credentialScope canonicalRequest;
                              signature = S3ClientSSE_calculateSignature P this stringToSign dateStamp;
                              finalQueryString = canonicalQueryString @ js ''&X-Amz-Signature='' @ signature
                          in Inr (template (s3_endpoint (config this)) @ canonicalUri @ js ''?''
                                    @ finalQueryString))))
      in case attempt of
           Inl error \<Rightarrow> Inl (new_Error (js ''Failed to generate presigned URL: '' @ err_message error))
         | Inr url \<Rightarrow> Inr url)"

section \<open>CryptoManager\<close>

definition arrayBufferToBase64 :: "byte list \<Rightarrow> js_error + jsstring" where
  "arrayBufferToBase64 buffer =
     (let bytes = buffer;
          binary = map ucast bytes
      in btoa binary)"

definition base64ToArrayBuffer :: "jsstring \<Rightarrow> js_error + byte list" where
  "base64ToArrayBuffer base64 =
     (case atob base64 of
        Inl e \<Rightarrow> Inl e
      | Inr binary \<Rightarrow> Inr (map ucast binary))"

record crypto_manager =
  cm_algorithm :: jsstring
  keyLength :: nat
  ivLength :: nat
  saltLength :: nat
  tagLength :: nat
  iterations :: nat

definition CryptoManager_constructor :: crypto_manager where
  "CryptoManager_constructor =
     \<lparr> cm_algorithm = js ''AES-GCM'', keyLength = 256, ivLength = 12, saltLength = 16,
       tagLength = 16, iterations = 100000 \<rparr>"

definition deriveKey :: "platform \<Rightarrow> crypto_manager \<Rightarrow> jsstring \<Rightarrow> byte list \<Rightarrow> js_error + byte list" where
  "deriveKey P this passphrase salt =
     (case subtle_deriveKey_pbkdf2 P (TextEncoder_encode passphrase) salt (iterations this)
             (keyLength this) of
        Inl error \<Rightarrow> Inl (new_Error (js ''Key derivation failed: '' @ err_message error))
      | Inr key \<Rightarrow> Inr key)"

record file_metadata =
  md_algorithm :: jsstring
  md_keyLength :: nat
  md_ivLength :: nat
  md_saltLength :: nat
  md_tagLength :: nat
  md_iterations :: nat
  md_originalSize :: nat
  md_encryptedSize :: nat
  md_timestamp :: nat
  md_originalName :: "jsstring option"
  md_mimeType :: "jsstring option"
  md_lastModified :: "nat option"

record encrypted_file =
  ef_encryptedData :: "byte list"
  ef_salt :: "byte list"
  ef_iv :: "byte list"
  ef_metadata :: file_metadata

text \<open>
  \<open>salt\<close> and \<open>iv\<close> are the values \<open>generateSalt()\<close> and \<open>generateIV()\<close> drew from
  \<open>crypto.getRandomValues\<close>; \<open>now\<close> is \<open>Date.now()\<close>.
\<close>

definition encryptFile ::
  "platform \<Rightarrow> crypto_manager \<Rightarrow> byte list \<Rightarrow> byte list \<Rightarrow> nat \<Rightarrow> file_input \<Rightarrow> jsstring
   \<Rightarrow> js_error + encrypted_file" where
  "encryptFile P this salt iv now file passphrase =
     (let data = file_bytes file;
          attempt =
            (case deriveKey P this passphrase salt of
               Inl e \<Rightarrow> Inl e
             | Inr key \<Rightarrow>
                 (case subtle_encrypt_aes_gcm P key iv (tagLength this * 8) data of
                    Inl e \<Rightarrow> Inl e
                  | Inr encryptedData \<Rightarrow>
                      Inr \<lparr> ef_encryptedData = encryptedData, ef_salt = salt, ef_iv = iv,
                            ef_metadata =
                              \<lparr> md_algorithm = cm_algorithm this, md_keyLength = keyLength this,
                                md_ivLength = ivLength this, md_saltLength = saltLength this,
                                md_tagLength = tagLength this, md_iterations = iterations this,
                                md_originalSize = length data,
                                md_encryptedSize = length encryptedData,
                                md_timestamp = now,
                                md_originalName =
                                  (case file of FileObject n t m c \<Rightarrow> Some n | Buffer c \<Rightarrow> None),
                                md_mimeType =
                                  (case file of FileObject n t m c \<Rightarrow> Some t | Buffer c \<Rightarrow> None),
                                md_lastModified =
                                  (case file of FileObject n t m c \<Rightarrow> Some m | Buffer c \<Rightarrow> None) \<rparr> \<rparr>))
      in case attempt of
           Inl error \<Rightarrow> Inl (new_Error (js ''File encryption failed: '' @ err_message error))
         | Inr r \<Rightarrow> Inr r)"

definition decryptFile ::
  "platform \<Rightarrow> crypto_manager \<Rightarrow> byte list \<Rightarrow> byte list \<Rightarrow> byte list \<Rightarrow> jsstring
   \<Rightarrow> js_error + byte list" where
  "decryptFile P this encryptedData salt iv passphrase =
     (let attempt =
            (case deriveKey P this passphrase salt of
               Inl e \<Rightarrow> Inl e
             | Inr key \<Rightarrow> subtle_decrypt_aes_gcm P key iv (tagLength this * 8) encryptedData)
      in case attempt of
           Inl error \<Rightarrow>
             if err_name error = js ''OperationError''
             then Inl (new_Error (js ''Decryption failed: Incorrect passphrase or corrupted data''))
             else Inl (new_Error (js ''File decryption failed: '' @ err_message error))
         | Inr decryptedData \<Rightarrow> Inr decryptedData)"

record encrypted_string =
  es_encryptedData :: jsstring
  es_salt :: jsstring
  es_iv :: jsstring

definition encryptString ::
  "platform \<Rightarrow> crypto_manager \<Rightarrow> byte list \<Rightarrow> byte list \<Rightarrow> jsstring \<Rightarrow> jsstring
   \<Rightarrow> js_error + encrypted_string" where
  "encryptString P this salt iv text passphrase =
     (let data = TextEncoder_encode text;
          attempt =
            (case deriveKey P this passphrase salt of
               Inl e \<Rightarrow> Inl e
             | Inr key \<Rightarrow>
                 (case subtle_encrypt_aes_gcm P key iv (tagLength this * 8) data of
                    Inl e \<Rightarrow> Inl e
                  | Inr encryptedData \<Rightarrow>
                      (case arrayBufferToBase64 encryptedData of
                         Inl e \<Rightarrow> Inl e
                       | Inr encryptedData64 \<Rightarrow>
                           (case arrayBufferToBase64 salt of
                              Inl e \<Rightarrow> Inl e
                            | Inr salt64 \<Rightarrow>
                                (case arrayBufferToBase64 iv of
                                   Inl e \<Rightarrow> Inl e
                                 | Inr iv64 \<Rightarrow>
                                     Inr \<lparr> es_encryptedData = encryptedData64, es_salt = salt64,
                                           es_iv = iv64 \<rparr>)))))
      in case attempt of
           Inl error \<Rightarrow> Inl (new_Error (js ''String encryption failed: '' @ err_message error))
         | Inr r \<Rightarrow> Inr r)"

definition decryptString ::
  "platform \<Rightarrow> crypto_manager \<Rightarrow> jsstring \<Rightarrow> jsstring \<Rightarrow> jsstring \<Rightarrow> jsstring
   \<Rightarrow> js_error + jsstring" where
  "decryptString P this encryptedData salt iv passphrase =
     (let attempt =
            (case base64ToArrayBuffer encryptedData of
               Inl e \<Rightarrow> Inl e
             | Inr encryptedBuffer \<Rightarrow>
                 (case base64ToArrayBuffer salt of
                    Inl e \<Rightarrow> Inl e
                  | Inr saltBuffer \<Rightarrow>
                      (case base64ToArrayBuffer iv of
                         Inl e \<Rightarrow> Inl e
                       | Inr ivBuffer \<Rightarrow>
                           (case deriveKey P this passphrase saltBuffer of
                              Inl e \<Rightarrow> Inl e
                            | Inr key \<Rightarrow>
                                (case subtle_decrypt_aes_gcm P key ivBuffer (tagLength this * 8)
                                        encryptedBuffer of
                                   Inl e \<Rightarrow> Inl e
                                 | Inr decryptedData \<Rightarrow> Inr (TextDecoder_decode decryptedData))))))
      in case attempt of
           Inl error \<Rightarrow>
             if err_name error = js ''OperationError''
             then Inl (new_Error (js ''Decryption failed: Incorrect passphrase or corrupted data''))
             else Inl (new_Error (js ''String decryption failed: '' @ err_message error))
         | Inr text \<Rightarrow> Inr text)"

section \<open>Reference definitions, following the specification's words\<close>

text \<open>Lowercase hexadecimal: two digits per byte, most significant first.\<close>

definition lowercase_hex :: "byte list \<Rightarrow> jsstring" where
  "lowercase_hex bs =
     concat (map (\<lambda>b. [hex_digit_lower (unat b div 16), hex_digit_lower (unat b mod 16)]) bs)"

text \<open>
  The SigV4 signing-key cascade as the specification writes it, over an arbitrary MAC
  \<open>HMAC key data\<close> on bytes, with every text argument taken in UTF-8.
\<close>

definition sigv4_signature_spec ::
  "(byte list \<Rightarrow> byte list \<Rightarrow> byte list) \<Rightarrow> jsstring \<Rightarrow> jsstring \<Rightarrow> jsstring \<Rightarrow> jsstring \<Rightarrow> jsstring" where
  "sigv4_signature_spec HMAC secretKey region dateStamp stringToSign =
     (let kDate = HMAC (TextEncoder_encode (js ''AWS4'' @ secretKey)) (TextEncoder_encode dateStamp);
          kRegion = HMAC kDate (TextEncoder_encode region);
          kService = HMAC kRegion (TextEncoder_encode (js ''s3''));
          kSigning = HMAC kService (TextEncoder_encode (js ''aws4_request''))
      in lowercase_hex (HMAC kSigning (TextEncoder_encode stringToSign)))"

text \<open>
  A stand-in for the platform, used only to exhibit concrete instances.  The digest is
  the first 32 bytes of the zero-extended input and the MAC is computed the same way from
  key and data; the derived key is the passphrase bytes followed by the salt; the cipher
  appends a 16-byte tag made from the key and the nonce, and decryption refuses any other
  tag with an \<open>OperationError\<close>; the host of a URL is what follows \<open>https://\<close>.
\<close>

definition stub_tag :: "byte list \<Rightarrow> byte list \<Rightarrow> byte list" where
  "stub_tag key iv = take 16 (key @ iv @ replicate 16 0)"

definition stub_platform :: platform where
  "stub_platform =
     \<lparr> subtle_digest_sha256 = (\<lambda>d. take 32 (d @ replicate 32 0)),
       subtle_sign_hmac_sha256 = (\<lambda>k d. take 32 (k @ d @ replicate 32 0)),
       subtle_deriveKey_pbkdf2 = (\<lambda>passphrase salt iterations len. Inr (passphrase @ salt)),
       subtle_encrypt_aes_gcm = (\<lambda>key iv tagLength data. Inr (data @ stub_tag key iv)),
       subtle_decrypt_aes_gcm = (\<lambda>key iv tagLength data.
          if 16 \<le> length data \<and> drop (length data - 16) data = stub_tag key iv
          then Inr (take (length data - 16) data)
          else Inl (JsError (js ''OperationError'') [])),
       url_host = (\<lambda>s. if take 8 s = js ''https://'' then Inr (drop 8 s)
                        else Inl (JsError (js ''TypeError'') (js ''Invalid URL''))),
       window_MD5 = True \<rparr>"

text \<open>
  The path prefix the specification expects \<open>S3Client\<close> to store: \<open>photos/\<close> when none
  is configured, otherwise the configured prefix, with a slash appended if it has none.
\<close>

definition path_prefix_spec :: "s3_config \<Rightarrow> jsstring" where
  "path_prefix_spec cfg =
     (case path_prefix cfg of
        None \<Rightarrow> js ''photos/''
      | Some q \<Rightarrow> if q = [] then js ''photos/''
                  else if endsWith q (js ''/'') then q else q @ js ''/'')"

text \<open>
  The canonical URI as the specification words it: every byte of the UTF-8 form of the key
  is percent-encoded unless it is an RFC 3986 unreserved character (\<open>A-Z a-z 0-9 - . _ ~\<close>)
  or the separator \<open>/\<close>.
\<close>

definition rfc3986_unreserved :: "byte \<Rightarrow> bool" where
  "rfc3986_unreserved b \<longleftrightarrow>
     is_ascii_alphanumeric (ucast b) \<or> b = 0x2D \<or> b = 0x2E \<or> b = 0x5F \<or> b = 0x7E"

definition canonical_uri_spec :: "jsstring \<Rightarrow> jsstring \<Rightarrow> jsstring" where
  "canonical_uri_spec bucket key =
     js ''/'' @ bucket @ js ''/'' @
       concat (map (\<lambda>b. if rfc3986_unreserved b \<or> b = 0x2F then [ucast b] else percent_encode_byte b)
                 (TextEncoder_encode key))"

text \<open>
  The canonical query string as the specification words it: the pairs sorted by key, each
  key and value percent-encoded (every byte of the UTF-8 form that is not an RFC 3986
  unreserved character), written \<open>key=value\<close> and joined with \<open>&\<close>.
\<close>

definition percent_encode_spec :: "jsstring \<Rightarrow> jsstring" where
  "percent_encode_spec s =
     concat (map (\<lambda>b. if rfc3986_unreserved b then [ucast b] else percent_encode_byte b)
               (TextEncoder_encode s))"

definition canonical_query_spec :: "(jsstring \<times> jsstring) list \<Rightarrow> jsstring" where
  "canonical_query_spec params =
     join_with (js ''&'')
       (map (\<lambda>(name, v). percent_encode_spec name @ js ''='' @ percent_encode_spec v)
          (sort_key fst params))"

text \<open>
  The five parameters of a presigned URL before it is signed, and the strings on which
  the form serializer of \<open>URLSearchParams\<close> and percent-encoding agree: those without a
  space, an asterisk or a tilde.
\<close>

definition presigned_keys_spec :: "jsstring list" where
  "presigned_keys_spec =
     [js ''X-Amz-Algorithm'', js ''X-Amz-Credential'', js ''X-Amz-Date'', js ''X-Amz-Expires'',
      js ''X-Amz-SignedHeaders'']"

definition query_plain :: "jsstring \<Rightarrow> bool" where
  "query_plain s = list_all (\<lambda>c. c \<noteq> 0x20 \<and> c \<noteq> 0x2A \<and> c \<noteq> 0x7E) s"

text \<open>
  A configuration field that the specification calls missing or malformed: absent, empty
  or made of white space only.
\<close>

definition field_blank :: "jsstring option \<Rightarrow> bool" where
  "field_blank v = (case v of None \<Rightarrow> True | Some s \<Rightarrow> list_all is_js_whitespace s)"

text \<open>
  Unicode scalar values, and the strings that are well-formed UTF-16: every lead surrogate
  is followed by a trail surrogate and no trail surrogate stands alone.
\<close>

definition scalar_value :: "nat \<Rightarrow> bool" where
  "scalar_value cp \<longleftrightarrow> cp < 0x110000 \<and> \<not> (0xD800 \<le> cp \<and> cp \<le> 0xDFFF)"

fun well_formed_utf16 :: "jsstring \<Rightarrow> bool" where
  "well_formed_utf16 [] = True"
| "well_formed_utf16 [c] = (\<not> is_lead_surrogate c \<and> \<not> is_trail_surrogate c)"
| "well_formed_utf16 (c # d # cs) =
     (if is_lead_surrogate c then is_trail_surrogate d \<and> well_formed_utf16 cs
      else \<not> is_trail_surrogate c \<and> well_formed_utf16 (d # cs))"

text \<open>The text that \<open>TextDecoder\<close> gives back unchanged: well-formed, with no leading U+FEFF.\<close>

definition plain_text :: "jsstring \<Rightarrow> bool" where
  "plain_text s \<longleftrightarrow> well_formed_utf16 s \<and> take 1 s \<noteq> [0xFEFF]"

text \<open>
  What sealing and opening assume of the platform's AES-GCM: what it encrypts under a
  key, a nonce and a tag length, it decrypts to the same data under the same three.
\<close>

definition aead_correct :: "platform \<Rightarrow> bool" where
  "aead_correct P \<longleftrightarrow>
     (\<forall>key iv n data sealed. subtle_encrypt_aes_gcm P key iv n data = Inr sealed \<longrightarrow>
        subtle_decrypt_aes_gcm P key iv n sealed = Inr data)"

subsection \<open>MD5 as RFC 1321 describes it\<close>

text \<open>
  Step 1 and 2: a single \<open>0x80\<close> byte, zero bytes until the length is 56 modulo 64, then
  the bit length of the message as a 64-bit little-endian number.
\<close>

definition rfc1321_length64 :: "nat \<Rightarrow> byte list" where
  "rfc1321_length64 bits = map (\<lambda>j. of_nat (bits div 256 ^ j)) [0..<8]"

definition rfc1321_pad :: "byte list \<Rightarrow> byte list" where
  "rfc1321_pad m =
     m @ [0x80] @ replicate (nat ((55 - int (length m)) mod 64)) 0
       @ rfc1321_length64 (8 * length m)"

text \<open>A word is four bytes, low-order byte first; a block is sixteen words.\<close>

definition rfc1321_word :: "byte list \<Rightarrow> uint32" where
  "rfc1321_word bs = word_rcat (rev bs)"

definition rfc1321_words :: "byte list \<Rightarrow> uint32 list" where
  "rfc1321_words block = map (\<lambda>j. rfc1321_word (take 4 (drop (4 * j) block))) [0..<16]"

function rfc1321_blocks :: "byte list \<Rightarrow> byte list list" where
  "rfc1321_blocks m = (if m = [] then [] else take 64 m # rfc1321_blocks (drop 64 m))"
  by pat_completeness auto
termination
  by (relation "measure length") auto

declare rfc1321_blocks.simps [simp del]

text \<open>Step 4: the four auxiliary functions, the table \<open>T[1..64]\<close> and the four rounds.\<close>

definition rfc1321_F :: "uint32 \<Rightarrow> uint32 \<Rightarrow> uint32 \<Rightarrow> uint32" where
  "rfc1321_F x y z = (x AND y) OR (NOT x AND z)"

definition rfc1321_G :: "uint32 \<Rightarrow> uint32 \<Rightarrow> uint32 \<Rightarrow> uint32" where
  "rfc1321_G x y z = (x AND z) OR (y AND NOT z)"

definition rfc1321_H :: "uint32 \<Rightarrow> uint32 \<Rightarrow> uint32 \<Rightarrow> uint32" where
  "rfc1321_H x y z = x XOR y XOR z"

definition rfc1321_I :: "uint32 \<Rightarrow> uint32 \<Rightarrow> uint32 \<Rightarrow> uint32" where
  "rfc1321_I x y z = y XOR (x OR NOT z)"

definition rfc1321_T :: "nat \<Rightarrow> uint32" where
  "rfc1321_T i = [
     0xd76aa478, 0xe8c7b756, 0x242070db, 0xc1bdceee, 0xf57c0faf, 0x4787c62a, 0xa8304613,
     0xfd469501, 0x698098d8, 0x8b44f7af, 0xffff5bb1, 0x895cd7be, 0x6b901122, 0xfd987193,
     0xa679438e, 0x49b40821, 0xf61e2562, 0xc040b340, 0x265e5a51, 0xe9b6c7aa, 0xd62f105d,
     0x02441453, 0xd8a1e681, 0xe7d3fbc8, 0x21e1cde6, 0xc33707d6, 0xf4d50d87, 0x455a14ed,
     0xa9e3e905, 0xfcefa3f8, 0x676f02d9, 0x8d2a4c8a, 0xfffa3942, 0x8771f681, 0x6d9d6122,
     0xfde5380c, 0xa4beea44, 0x4bdecfa9, 0xf6bb4b60, 0xbebfbc70, 0x289b7ec6, 0xeaa127fa,
     0xd4ef3085, 0x04881d05, 0xd9d4d039, 0xe6db99e5, 0x1fa27cf8, 0xc4ac5665, 0xf4292244,
     0x432aff97, 0xab9423a7, 0xfc93a039, 0x655b59c3, 0x8f0ccc92, 0xffeff47d, 0x85845dd1,
     0x6fa87e4f, 0xfe2ce6e0, 0xa3014314, 0x4e0811a1, 0xf7537e82, 0xbd3af235, 0x2ad7d2bb,
     0xeb86d391] ! (i - 1)"

text \<open>The operation \<open>[abcd k s i]\<close>: \<open>a = b + ((a + f(b,c,d) + X[k] + T[i]) <<< s)\<close>.\<close>

definition rfc1321_op ::
  "(uint32 \<Rightarrow> uint32 \<Rightarrow> uint32 \<Rightarrow> uint32) \<Rightarrow> uint32 list \<Rightarrow>
   uint32 \<Rightarrow> uint32 \<Rightarrow> uint32 \<Rightarrow> uint32 \<Rightarrow> nat \<times> nat \<times> nat \<Rightarrow> uint32" where
  "rfc1321_op f X a b c d ksi =
     (case ksi of (k, s, i) \<Rightarrow> b + word_rotl s (a + f b c d + X ! k + rfc1321_T i))"

text \<open>Operations come in rows of four: \<open>[ABCD ...] [DABC ...] [CDAB ...] [BCDA ...]\<close>.\<close>

fun rfc1321_rows ::
  "(uint32 \<Rightarrow> uint32 \<Rightarrow> uint32 \<Rightarrow> uint32) \<Rightarrow> uint32 list \<Rightarrow> (nat \<times> nat \<times> nat) list \<Rightarrow>
   md5_state \<Rightarrow> md5_state" where
  "rfc1321_rows f X (o1 # o2 # o3 # o4 # rest) (A, B, C, D) =
     (let A = rfc1321_op f X A B C D o1;
          D = rfc1321_op f X D A B C o2;
          C = rfc1321_op f X C D A B o3;
          B = rfc1321_op f X B C D A o4
      in rfc1321_rows f X rest (A, B, C, D))"
| "rfc1321_rows f X ops s = s"

definition rfc1321_round1 :: "(nat \<times> nat \<times> nat) list" where
  "rfc1321_round1 =
     [(0, 7, 1), (1, 12, 2), (2, 17, 3), (3, 22, 4),
      (4, 7, 5), (5, 12, 6), (6, 17, 7), (7, 22, 8),
      (8, 7, 9), (9, 12, 10), (10, 17, 11), (11, 22, 12),
      (12, 7, 13), (13, 12, 14), (14, 17, 15), (15, 22, 16)]"

definition rfc1321_round2 :: "(nat \<times> nat \<times> nat) list" where
  "rfc1321_round2 =
     [(1, 5, 17), (6, 9, 18), (11, 14, 19), (0, 20, 20),
      (5, 5, 21), (10, 9, 22), (15, 14, 23), (4, 20, 24),
      (9, 5, 25), (14, 9, 26), (3, 14, 27), (8, 20, 28),
      (13, 5, 29), (2, 9, 30), (7, 14, 31), (12, 20, 32)]"

definition rfc1321_round3 :: "(nat \<times> nat \<times> nat) list" where
  "rfc1321_round3 =
     [(5, 4, 33), (8, 11, 34), (11, 16, 35), (14, 23, 36),
      (1, 4, 37), (4, 11, 38), (7, 16, 39), (10, 23, 40),
      (13, 4, 41), (0, 11, 42), (3, 16, 43), (6, 23, 44),
      (9, 4, 45), (12, 11, 46), (15, 16, 47), (2, 23, 48)]"

definition rfc1321_round4 :: "(nat \<times> nat \<times> nat) list" where
  "rfc1321_round4 =
     [(0, 6, 49), (7, 10, 50), (14, 15, 51), (5, 21, 52),
      (12, 6, 53), (3, 10, 54), (10, 15, 55), (1, 21, 56),
      (8, 6, 57), (15, 10, 58), (6, 15, 59), (13, 21, 60),
      (4, 6, 61), (11, 10, 62), (2, 15, 63), (9, 21, 64)]"

definition rfc1321_block :: "md5_state \<Rightarrow> byte list \<Rightarrow> md5_state" where
  "rfc1321_block s block =
     (let X = rfc1321_words block;
          (AA, BB, CC, DD) = s;
          s1 = rfc1321_rows rfc1321_F X rfc1321_round1 s;
          s2 = rfc1321_rows rfc1321_G X rfc1321_round2 s1;
          s3 = rfc1321_rows rfc1321_H X rfc1321_round3 s2;
          (A, B, C, D) = rfc1321_rows rfc1321_I X rfc1321_round4 s3
      in (A + AA, B + BB, C + CC, D + DD))"

text \<open>Step 3 and 5: the initial buffer, and the output, low-order byte of \<open>A\<close> first.\<close>

definition rfc1321_init :: md5_state where
  "rfc1321_init = (0x67452301, 0xefcdab89, 0x98badcfe, 0x10325476)"

definition rfc1321_bytes :: "uint32 \<Rightarrow> byte list" where
  "rfc1321_bytes w = map (\<lambda>j. ucast (drop_bit (8 * j) w)) [0..<4]"

definition rfc1321_md5 :: "byte list \<Rightarrow> byte list" where
  "rfc1321_md5 m =
     (case foldl rfc1321_block rfc1321_init (rfc1321_blocks (rfc1321_pad m)) of
        (A, B, C, D) \<Rightarrow> rfc1321_bytes A @ rfc1321_bytes B @ rfc1321_bytes C @ rfc1321_bytes D)"

subsection \<open>Auxiliary notions for the MD5 proofs\<close>

text \<open>One iteration of the main loop of \<open>processChunk\<close>, in closed form.\<close>

definition md5_f :: "nat \<Rightarrow> uint32 \<Rightarrow> uint32 \<Rightarrow> uint32 \<Rightarrow> uint32" where
  "md5_f i b c d =
     (if i < 16 then (b AND c) OR (NOT b AND d)
      else if i < 32 then (d AND b) OR (NOT d AND c)
      else if i < 48 then b XOR c XOR d
      else c XOR (b OR NOT d))"

definition md5_g :: "nat \<Rightarrow> nat" where
  "md5_g i =
     (if i < 16 then i
      else if i < 32 then (5 * i + 1) mod 16
      else if i < 48 then (3 * i + 5) mod 16
      else (7 * i) mod 16)"

definition md5_step :: "uint32 list \<Rightarrow> nat \<Rightarrow> md5_state \<Rightarrow> md5_state" where
  "md5_step w i s =
     (case s of (a, b, c, d) \<Rightarrow>
        (d, addUint32 b (leftRotate
              (addUint32 (addUint32 a (md5_f i b c d)) (addUint32 (getK i) (w ! md5_g i)))
              (getR i)), b, c))"

subsection \<open>Auxiliary notions for the base64 proofs\<close>

text \<open>The 6-bit groups that \<open>base64_encode\<close> prints, without the padding.\<close>

fun base64_sextets :: "byte list \<Rightarrow> nat list" where
  "base64_sextets [] = []"
| "base64_sextets [a] = [unat a div 4, unat a mod 4 * 16]"
| "base64_sextets [a, b] =
     [unat a div 4, unat a mod 4 * 16 + unat b div 16, unat b mod 16 * 4]"
| "base64_sextets (a # b # c # rest) =
     [unat a div 4, unat a mod 4 * 16 + unat b div 16,
      unat b mod 16 * 4 + unat c div 64, unat c mod 64] @ base64_sextets rest"

text \<open>A complete configuration, used only to exhibit concrete requests.\<close>

definition vault_config :: s3_config where
  "vault_config =
     \<lparr> s3_endpoint = Some (js ''https://s3.example.com''), s3_region = Some (js ''eu-west-1''),
       s3_bucket = Some (js ''vault''), s3_access_key = Some (js ''AKIDEXAMPLE''),
       s3_secret_key = Some (js ''secret''), path_prefix = Some (js ''pics''),
       encryption_key = None \<rparr>"

text \<open>The configuration object with no property at all.\<close>

definition empty_config :: s3_config where
  "empty_config =
     \<lparr> s3_endpoint = None, s3_region = None, s3_bucket = None, s3_access_key = None,
       s3_secret_key = None, path_prefix = None, encryption_key = None \<rparr>"

section \<open>Evaluating strings\<close>

lemma js_Cons: "js (c # s) = of_nat (of_char c) # js s" and js_Nil: "js [] = []"
  by (simp_all add: js_def)

lemmas surrogate_defs = is_lead_surrogate_def is_trail_surrogate_def

section \<open>Printing bytes in hexadecimal\<close>

lemma Number_toString16_byte:
  assumes "n < 256"
  shows "padStart 2 0x30 (Number_toString16 n) = [hex_digit_lower (n div 16), hex_digit_lower (n mod 16)]"
proof (cases "n < 16")
  case True
  then have "Number_toString16 n = [hex_digit_lower n]"
    by (simp add: Number_toString16.simps)
  moreover have "hex_digit_lower 0 = 0x30"
    by (simp add: hex_digit_lower_def js_def)
  ultimately show ?thesis
    using True by (simp add: padStart_def numeral_2_eq_2)
next
  case False
  with assms have small: "n div 16 < 16" by simp
  have "Number_toString16 n = Number_toString16 (n div 16) @ [hex_digit_lower (n mod 16)]"
    using False by (subst Number_toString16.simps) simp
  also have "Number_toString16 (n div 16) = [hex_digit_lower (n div 16)]"
    using small by (subst Number_toString16.simps) simp
  finally show ?thesis
    by (simp add: padStart_def)
qed

lemma bytes_to_hex_lowercase: "bytes_to_hex bs = lowercase_hex bs"
proof -
  have "padStart 2 0x30 (Number_toString16 (unat b)) =
        [hex_digit_lower (unat b div 16), hex_digit_lower (unat b mod 16)]" for b :: byte
  proof (rule Number_toString16_byte)
    show "unat b < 256" using unsigned_less [of b, where ?'a = nat] by simp
  qed
  then show ?thesis
    by (simp add: bytes_to_hex_def lowercase_hex_def)
qed

lemma S3Client_constructor_serviceName [simp]:
  "serviceName (S3Client_constructor cfg) = js ''s3''"
  by (simp add: S3Client_constructor_def Let_def)

lemma S3ClientSSE_constructor_serviceName [simp]:
  "serviceName (S3ClientSSE_constructor P cfg) = js ''s3''"
  by (simp add: S3ClientSSE_constructor_def)

section \<open>C1: the signing-key cascade\<close>

text \<open>
  C1.  For a client whose service name is \<open>s3\<close> (as both constructors set it) and whose
  configuration holds a secret key and a region, \<open>calculateSignature\<close> returns the
  lowercase hexadecimal encoding of \<open>HMAC(kSigning, stringToSign)\<close>, where
  \<open>kDate = HMAC("AWS4" + secretKey, dateStamp)\<close>, \<open>kRegion = HMAC(kDate, region)\<close>,
  \<open>kService = HMAC(kRegion, "s3")\<close> and \<open>kSigning = HMAC(kService, "aws4_request")\<close>.
  This holds for \<open>S3Client\<close> and for \<open>S3ClientSSE\<close>, whatever the MAC.
\<close>

theorem calculateSignature_is_sigv4_cascade:
  "(serviceName this = js ''s3'' \<longrightarrow> s3_secret_key (config this) = Some secretKey \<longrightarrow>
      s3_region (config this) = Some region \<longrightarrow>
      S3Client_calculateSignature P this stringToSign dateStamp =
        sigv4_signature_spec (subtle_sign_hmac_sha256 P) secretKey region dateStamp stringToSign)
   \<and> (serviceName sse = js ''s3'' \<longrightarrow> s3_secret_key (config sse) = Some secretKey \<longrightarrow>
      s3_region (config sse) = Some region \<longrightarrow>
      S3ClientSSE_calculateSignature P sse stringToSign dateStamp =
        sigv4_signature_spec (subtle_sign_hmac_sha256 P) secretKey region dateStamp stringToSign)"
  by (simp add: S3Client_calculateSignature_def S3ClientSSE_calculateSignature_def
      sigv4_signature_spec_def hmacSha256_def TextEncoder_encode_arg_def template_def
      bytes_to_hex_lowercase Let_def)

theorem calculateSignature_is_sigv4_cascade_witness:
  "S3Client_calculateSignature stub_platform
      (S3Client_constructor \<lparr> s3_endpoint = None, s3_region = Some (js ''eu''), s3_bucket = None,
         s3_access_key = None, s3_secret_key = Some (js ''k''), path_prefix = None,
         encryption_key = None \<rparr>) (js ''x'') (js ''20130524'') =
     sigv4_signature_spec (subtle_sign_hmac_sha256 stub_platform) (js ''k'') (js ''eu'')
       (js ''20130524'') (js ''x'')
   \<and> S3ClientSSE_calculateSignature stub_platform
      (S3ClientSSE_constructor stub_platform \<lparr> s3_endpoint = None, s3_region = Some (js ''eu''),
         s3_bucket = None, s3_access_key = None, s3_secret_key = Some (js ''k''),
         path_prefix = None, encryption_key = None \<rparr>) (js ''x'') (js ''20130524'') =
     sigv4_signature_spec (subtle_sign_hmac_sha256 stub_platform) (js ''k'') (js ''eu'')
       (js ''20130524'') (js ''x'')"
proof -
  let ?cfg = "\<lparr> s3_endpoint = None, s3_region = Some (js ''eu''), s3_bucket = None,
         s3_access_key = None, s3_secret_key = Some (js ''k''), path_prefix = None,
         encryption_key = None \<rparr>"
  have a: "s3_secret_key (config (S3Client_constructor ?cfg)) = Some (js ''k'')"
    and b: "s3_region (config (S3Client_constructor ?cfg)) = Some (js ''eu'')"
    by (simp_all add: S3Client_constructor_def Let_def)
  have c: "s3_secret_key (config (S3ClientSSE_constructor stub_platform ?cfg)) = Some (js ''k'')"
    and d: "s3_region (config (S3ClientSSE_constructor stub_platform ?cfg)) = Some (js ''eu'')"
    by (simp_all add: S3ClientSSE_constructor_def or_default_def js_def)
  show ?thesis
    using calculateSignature_is_sigv4_cascade
      [of "S3Client_constructor ?cfg" "js ''k''" "js ''eu''" stub_platform "js ''x''" "js ''20130524''"
          "S3ClientSSE_constructor stub_platform ?cfg"]
      a b c d
    by simp
qed

section \<open>MD5: the class computes RFC 1321\<close>

subsection \<open>One block\<close>

lemma mainLoop_step: "i < 64 \<Longrightarrow> mainLoop w i s = mainLoop w (i + 1) (md5_step w i s)"
  by (cases s) (simp add: mainLoop.simps[of w i] md5_step_def md5_f_def md5_g_def Let_def)

lemma mainLoop_end: "mainLoop w 64 s = s"
  by (cases s) (simp add: mainLoop.simps[of w 64])

lemma mainLoop_foldl: "i \<le> 64 \<Longrightarrow> mainLoop w i s = foldl (\<lambda>s j. md5_step w j s) s [i..<64]"
proof (induction "64 - i" arbitrary: i s)
  case 0
  then show ?case by (simp add: mainLoop_end)
next
  case (Suc n)
  then have "i < 64" by simp
  then show ?case
    using Suc.hyps(1)[of "i + 1" "md5_step w i s"] Suc.hyps(2)
    by (simp add: mainLoop_step upt_conv_Cons)
qed

lemma rot_arith1: "s < 32 \<Longrightarrow> n < 32 \<Longrightarrow> s \<le> n \<Longrightarrow> (n + 32 - s) mod 32 = n - (s::nat)"
  by (simp add: mod_if)

lemma rot_arith2: "0 < s \<Longrightarrow> n < 32 \<Longrightarrow> \<not> s \<le> n \<Longrightarrow> (n + 32 - s) mod 32 = 32 + n - (s::nat)"
  by simp

lemma leftRotate_word_rotl:
  assumes "0 < s" and "s < 32"
  shows "leftRotate v s = word_rotl s v"
proof (rule bit_word_eqI)
  fix n
  assume "n < LENGTH(32)"
  then have n: "n < 32" by simp
  have high: "\<not> bit v m" if "32 \<le> m" for m
    using that bit_imp_le_length [of v m] by auto
  show "bit (leftRotate v s) n \<longleftrightarrow> bit (word_rotl s v) n"
  proof (cases "s \<le> n")
    case True
    have "\<not> bit v (32 - s + n)"
      using True assms by (intro high) simp
    then show ?thesis
      using assms n True by (simp add: leftRotate_def bit_simps rot_arith1)
  next
    case False
    have "32 + n - s = n + 32 - s"
      by simp
    then show ?thesis
      using assms n False by (simp add: leftRotate_def bit_simps rot_arith2)
  qed
qed

lemma rfc1321_T_getK: "rfc1321_T (Suc j) = getK j"
  by (simp add: rfc1321_T_def getK_def)

lemma md5_step_op:
  assumes "\<And>b c d. md5_f i b c d = f b c d" and "0 < getR i" and "getR i < 32"
  shows "md5_step w i (a, b, c, d) = (d, rfc1321_op f w a b c d (md5_g i, getR i, Suc i), b, c)"
proof -
  have e: "addUint32 (addUint32 a (f b c d)) (addUint32 (getK i) (w ! md5_g i)) =
           a + f b c d + w ! md5_g i + rfc1321_T (Suc i)"
    by (simp add: addUint32_def rfc1321_T_getK add.assoc add.commute)
  have "md5_step w i (a, b, c, d) =
        (d, addUint32 b (leftRotate (a + f b c d + w ! md5_g i + rfc1321_T (Suc i)) (getR i)), b, c)"
    by (simp only: md5_step_def assms(1) e prod.case)
  then show ?thesis
    using assms(2,3) by (simp add: rfc1321_op_def leftRotate_word_rotl addUint32_def)
qed

lemma four_steps:
  assumes "\<And>j b c d. i \<le> j \<Longrightarrow> j < i + 4 \<Longrightarrow> md5_f j b c d = f b c d" 
    and "\<And>j. i \<le> j \<Longrightarrow> j < i + 4 \<Longrightarrow> 0 < getR j \<and> getR j < 32"
  shows "md5_step w (Suc (Suc (Suc i))) (md5_step w (Suc (Suc i)) (md5_step w (Suc i) (md5_step w i (A, B, C, D)))) =
         rfc1321_rows f w [(md5_g i, getR i, Suc i), (md5_g (Suc i), getR (Suc i), Suc (Suc i)),
            (md5_g (Suc (Suc i)), getR (Suc (Suc i)), Suc (Suc (Suc i))), 
            (md5_g (Suc (Suc (Suc i))), getR (Suc (Suc (Suc i))), Suc (Suc (Suc (Suc i))))] (A, B, C, D)"
proof -
  have s: "md5_step w j (a, b, c, d) = (d, rfc1321_op f w a b c d (md5_g j, getR j, Suc j), b, c)"
    if "i \<le> j" "j < i + 4" for j a b c d
    using that assms by (intro md5_step_op) auto
  show ?thesis
    by (simp add: s Let_def)
qed

lemma byte_bit_high: "8 \<le> n \<Longrightarrow> \<not> bit (b :: byte) n"
  using bit_imp_le_length [of b n] by auto

lemma word_rcat_4: "(word_rcat [b3, b2, b1, b0 :: byte] :: uint32) =
   ucast b0 OR push_bit 8 (ucast b1) OR push_bit 16 (ucast b2) OR push_bit 24 (ucast b3)"
proof (rule bit_word_eqI)
  fix n
  assume "n < LENGTH(32)"
  then have n: "n < 32" by simp
  have L: "bit (word_rcat [b3, b2, b1, b0] :: uint32) n \<longleftrightarrow> bit ([b0, b1, b2, b3] ! (n div 8)) (n mod 8)"
  proof -
    have "n div 8 < 4" using n by simp
    then show ?thesis
      using n by (simp only: word_rcat_def o_def bit_word_of_int_iff bit_horner_sum_uint_exp_iff) simp
  qed
  consider "n < 8" | "8 \<le> n" "n < 16" | "16 \<le> n" "n < 24" | "24 \<le> n" "n < 32"
    using n by linarith
  then show "bit (word_rcat [b3, b2, b1, b0] :: uint32) n \<longleftrightarrow>
     bit (ucast b0 OR push_bit 8 (ucast b1) OR push_bit 16 (ucast b2) OR push_bit 24 (ucast b3) :: uint32) n"
  proof cases
    case 1
    then show ?thesis unfolding L by (simp add: bit_simps)
  next
    case 2
    then have "n div 8 = 1" "n mod 8 = n - 8" "n - 8 < 32" by presburger+
    then show ?thesis unfolding L using 2 n by (simp add: bit_simps byte_bit_high)
  next
    case 3
    then have "n div 8 = 2" "n mod 8 = n - 16" "n - 16 < 32" by presburger+
    then show ?thesis unfolding L using 3 n by (simp add: bit_simps byte_bit_high)
  next
    case 4
    then have "n div 8 = 3" "n mod 8 = n - 24" "n - 24 < 32" by presburger+
    then show ?thesis unfolding L using 4 n by (simp add: bit_simps byte_bit_high)
  qed
qed

lemma upt_0_16: "[0..<16] = [0, 1, 2, 3, 4, 5, 6, 7, 8, 9, 10, 11, 12, 13, 14, 15]"
  by (simp add: upt_conv_Cons[of 0] upt_conv_Cons[of "Suc 0"]  numeral_2_eq_2[symmetric])


lemma sched1: "map (\<lambda>j. (md5_g j, getR j, Suc j)) [0..<16] = rfc1321_round1"
  by (simp add: upt_0_16 md5_g_def getR_def rfc1321_round1_def) 

lemma sched2: "map (\<lambda>j. (md5_g j, getR j, Suc j)) [16..<32] = rfc1321_round2"
  by (simp add: md5_g_def getR_def rfc1321_round2_def) 

lemma sched3: "map (\<lambda>j. (md5_g j, getR j, Suc j)) [32..<48] = rfc1321_round3"
  by (simp add: md5_g_def getR_def rfc1321_round3_def) 

lemma sched4: "map (\<lambda>j. (md5_g j, getR j, Suc j)) [48..<64] = rfc1321_round4"
  by (simp add: md5_g_def getR_def rfc1321_round4_def) 

lemma getR_range: "j < 64 \<Longrightarrow> 0 < getR j \<and> getR j < 32"
proof -
  let ?tab = "[7, 12, 17, 22, 7, 12, 17, 22, 7, 12, 17, 22, 7, 12, 17, 22,
    5, 9, 14, 20, 5, 9, 14, 20, 5, 9, 14, 20, 5, 9, 14, 20,
    4, 11, 16, 23, 4, 11, 16, 23, 4, 11, 16, 23, 4, 11, 16, 23,
    6, 10, 15, 21, 6, 10, 15, 21, 6, 10, 15, 21, 6, 10, 15, 21] :: nat list"
  assume "j < 64"
  then have "?tab ! j \<in> set ?tab" by (intro nth_mem) simp
  moreover have "\<forall>r \<in> set ?tab. 0 < r \<and> r < 32" by simp
  ultimately show ?thesis unfolding getR_def by blast
qed

lemma take4_drop:
  assumes "k + 4 \<le> length xs"
  shows "take 4 (drop k xs) = [xs ! k, xs ! (k + 1), xs ! (k + 2), xs ! (k + 3)]"
  using assms by (auto simp: list_eq_iff_nth_eq nth_Cons numeral_3_eq_3 numeral_2_eq_2 split: nat.splits)

lemma getUint32_word:
  assumes "off + 4 \<le> length buf"
  shows "getUint32 buf off = rfc1321_word (take 4 (drop off buf))"
  using assms by (simp add: take4_drop rfc1321_word_def word_rcat_4 getUint32_def)

lemma words_of_chunk:
  assumes "length chunk = 64"
  shows "map (\<lambda>i. getUint32 chunk (i * 4)) [0..<16] = rfc1321_words chunk"
  unfolding rfc1321_words_def
  by (rule map_cong [OF refl]) (simp add: getUint32_word assms mult.commute)

lemma rows_append4:
  "rfc1321_rows f X (o1 # o2 # o3 # o4 # rest) s = rfc1321_rows f X rest (rfc1321_rows f X [o1, o2, o3, o4] s)"
  by (cases s) (simp add: Let_def)

lemma foldl_rows:
  assumes "\<And>j b c d. i \<le> j \<Longrightarrow> j < i + 4 * n \<Longrightarrow> md5_f j b c d = f b c d" and "i + 4 * n \<le> 64"
  shows "foldl (\<lambda>s j. md5_step w j s) s [i..<i + 4 * n] =
         rfc1321_rows f w (map (\<lambda>j. (md5_g j, getR j, Suc j)) [i..<i + 4 * n]) s"
  using assms
proof (induction n arbitrary: i s)
  case 0
  then show ?case by (cases s) simp
next
  case (Suc n)
  obtain A B C D where s: "s = (A, B, C, D)" by (cases s) auto
  have e4: "i + 4 = Suc (Suc (Suc (Suc i)))" by simp
  have u1: "[i..<(i + 4) + 4 * n] = [i..<i + 4] @ [i + 4..<(i + 4) + 4 * n]"
    by (rule upt_add_eq_append) simp
  have u2: "[i..<i + 4] = [i, Suc i, Suc (Suc i), Suc (Suc (Suc i))]"
    unfolding e4 by simp
  have u3: "i + 4 * Suc n = (i + 4) + 4 * n"
    by simp
  have split: "[i..<i + 4 * Suc n] = i # Suc i # Suc (Suc i) # Suc (Suc (Suc i)) # [i + 4..<(i + 4) + 4 * n]"
    unfolding u3 u1 u2 by (simp only: append.simps)
  have f4: "md5_f j b c d = f b c d" if "i \<le> j" "j < i + 4" for j b c d
    using that by (intro Suc.prems(1)) simp_all
  have r4: "0 < getR j \<and> getR j < 32" if "i \<le> j" "j < i + 4" for j
    using that Suc.prems(2) by (intro getR_range) simp
  have four: "md5_step w (Suc (Suc (Suc i))) (md5_step w (Suc (Suc i)) (md5_step w (Suc i) (md5_step w i (A, B, C, D)))) =
         rfc1321_rows f w [(md5_g i, getR i, Suc i), (md5_g (Suc i), getR (Suc i), Suc (Suc i)),
            (md5_g (Suc (Suc i)), getR (Suc (Suc i)), Suc (Suc (Suc i))), 
            (md5_g (Suc (Suc (Suc i))), getR (Suc (Suc (Suc i))), Suc (Suc (Suc (Suc i))))] (A, B, C, D)"
    using f4 r4 by (rule four_steps)
  have fr: "md5_f j b c d = f b c d" if "i + 4 \<le> j" "j < (i + 4) + 4 * n" for j b c d
    using that by (intro Suc.prems(1)) simp_all
  have rest: "foldl (\<lambda>s j. md5_step w j s) t [i + 4..<(i + 4) + 4 * n] =
         rfc1321_rows f w (map (\<lambda>j. (md5_g j, getR j, Suc j)) [i + 4..<(i + 4) + 4 * n]) t" for t
    using fr Suc.prems(2) by (intro Suc.IH) simp_all
  show ?case
    unfolding split s
    by (simp only: foldl_Cons list.map rows_append4 [of f w _ _ _ _ "map _ _"] four rest)
qed

lemma md5_f_rounds:
  "i < 16 \<Longrightarrow> md5_f i b c d = rfc1321_F b c d"
  "16 \<le> i \<Longrightarrow> i < 32 \<Longrightarrow> md5_f i b c d = rfc1321_G b c d"
  "32 \<le> i \<Longrightarrow> i < 48 \<Longrightarrow> md5_f i b c d = rfc1321_H b c d"
  "48 \<le> i \<Longrightarrow> md5_f i b c d = rfc1321_I b c d"
  by (simp_all add: md5_f_def rfc1321_F_def rfc1321_G_def rfc1321_H_def rfc1321_I_def
      and.commute)

lemma mainLoop_rounds:
  "mainLoop w 0 s =
     rfc1321_rows rfc1321_I w rfc1321_round4
       (rfc1321_rows rfc1321_H w rfc1321_round3
         (rfc1321_rows rfc1321_G w rfc1321_round2
           (rfc1321_rows rfc1321_F w rfc1321_round1 s)))"
proof -
  have split: "[0..<64] = [0..<16] @ [16..<32] @ [32..<48] @ [48..<64]"
    using upt_add_eq_append [of 0 16 16] upt_add_eq_append [of 0 32 16]
      upt_add_eq_append [of 0 48 16] by simp
  have r1: "foldl (\<lambda>s j. md5_step w j s) t [0..<16] = rfc1321_rows rfc1321_F w rfc1321_round1 t" for t
  proof -
    have "foldl (\<lambda>s j. md5_step w j s) t [0..<0 + 4 * 4] =
          rfc1321_rows rfc1321_F w (map (\<lambda>j. (md5_g j, getR j, Suc j)) [0..<0 + 4 * 4]) t"
      by (rule foldl_rows) (simp_all add: md5_f_rounds)
    moreover have "0 + 4 * 4 = (16::nat)" by simp
    ultimately show ?thesis by (simp only: sched1)
  qed
  have r2: "foldl (\<lambda>s j. md5_step w j s) t [16..<32] = rfc1321_rows rfc1321_G w rfc1321_round2 t" for t
  proof -
    have "foldl (\<lambda>s j. md5_step w j s) t [16..<16 + 4 * 4] =
          rfc1321_rows rfc1321_G w (map (\<lambda>j. (md5_g j, getR j, Suc j)) [16..<16 + 4 * 4]) t"
      by (rule foldl_rows) (simp_all add: md5_f_rounds)
    moreover have "16 + 4 * 4 = (32::nat)" by simp
    ultimately show ?thesis by (simp only: sched2)
  qed
  have r3: "foldl (\<lambda>s j. md5_step w j s) t [32..<48] = rfc1321_rows rfc1321_H w rfc1321_round3 t" for t
  proof -
    have "foldl (\<lambda>s j. md5_step w j s) t [32..<32 + 4 * 4] =
          rfc1321_rows rfc1321_H w (map (\<lambda>j. (md5_g j, getR j, Suc j)) [32..<32 + 4 * 4]) t"
      by (rule foldl_rows) (simp_all add: md5_f_rounds)
    moreover have "32 + 4 * 4 = (48::nat)" by simp
    ultimately show ?thesis by (simp only: sched3)
  qed
  have r4: "foldl (\<lambda>s j. md5_step w j s) t [48..<64] = rfc1321_rows rfc1321_I w rfc1321_round4 t" for t
  proof -
    have "foldl (\<lambda>s j. md5_step w j s) t [48..<48 + 4 * 4] =
          rfc1321_rows rfc1321_I w (map (\<lambda>j. (md5_g j, getR j, Suc j)) [48..<48 + 4 * 4]) t"
      by (rule foldl_rows) (simp_all add: md5_f_rounds)
    moreover have "48 + 4 * 4 = (64::nat)" by simp
    ultimately show ?thesis by (simp only: sched4)
  qed
  show ?thesis
    by (simp only: mainLoop_foldl [of 0 w s, simplified] split foldl_append r1 r2 r3 r4)
qed

lemma MD5_processChunk_block:
  assumes "length chunk = 64"
  shows "MD5_processChunk h chunk = rfc1321_block h chunk"
  by (cases h)
    (simp add: MD5_processChunk_def rfc1321_block_def words_of_chunk [OF assms] mainLoop_rounds
      addUint32_def Let_def add.commute split: prod.splits)

subsection \<open>Padding\<close>

lemma paddingLen_eq: "nat ((56 - int ((n + 1) mod 64) + 64) mod 64) = nat ((55 - int n) mod 64)"
proof -
  have "(56 - int ((n + 1) mod 64) + 64) mod 64 = (120 - (int (n + 1) mod 64)) mod 64"
    by (simp add: zmod_int)
  also have "\<dots> = (120 - int (n + 1)) mod 64"
    by (rule mod_diff_right_eq)
  also have "\<dots> = ((55 - int n) + 64) mod 64"
    by simp
  also have "\<dots> = (55 - int n) mod 64"
    by (rule mod_add_self2)
  finally show ?thesis by simp
qed

lemma setUint32_tail:
  "setUint32 (setUint32 (pre @ replicate 8 0) (length pre) lo) (length pre + 4) hi =
   pre @ rfc1321_bytes lo @ rfc1321_bytes hi"
  by (simp add: setUint32_def rfc1321_bytes_def list_update_append eval_nat_numeral upt_conv_Cons)

lemma byte_of_nat_drop:
  "(ucast (drop_bit k (of_nat m :: uint32)) :: byte) = of_nat (m div 2 ^ k)" if "k + 8 \<le> 32"
proof (rule bit_word_eqI)
  fix n
  assume "n < LENGTH(8)"
  then show "bit (ucast (drop_bit k (of_nat m :: uint32)) :: byte) n \<longleftrightarrow> bit (of_nat (m div 2 ^ k) :: byte) n"
    using that by (simp add: bit_simps flip: drop_bit_eq_div) 
qed

lemma upt_0_8: "[0..<8] = [0, 1, 2, 3, 4, 5, 6, 7]" and upt_0_4: "[0..<4] = [0, 1, 2, 3]"
  by (simp_all add: upt_conv_Cons[of 0] upt_conv_Cons[of "Suc 0"] numeral_2_eq_2[symmetric])

lemma length64_bytes:
  "rfc1321_bytes (of_nat bits) @ rfc1321_bytes (of_nat (bits div 0x100000000)) = rfc1321_length64 bits"
  by (simp add: rfc1321_bytes_def rfc1321_length64_def upt_0_8 upt_0_4 byte_of_nat_drop
      byte_of_nat_drop [of 0, simplified] div_mult2_eq [symmetric])

lemma final_bytes:
  "setUint32 (setUint32 ((bytes @ [0x80]) @ replicate (length bytes + 1 + k + 8 - length (bytes @ [0x80])) 0)
      (length bytes + 1 + k + 8 - 8) lo) (length bytes + 1 + k + 8 - 4) hi =
   (bytes @ [0x80] @ replicate k 0) @ rfc1321_bytes lo @ rfc1321_bytes hi"
proof -
  let ?pre = "bytes @ [0x80] @ replicate k 0"
  have "(bytes @ [0x80]) @ replicate (length bytes + 1 + k + 8 - length (bytes @ [0x80])) 0 = ?pre @ replicate 8 0"
    by (simp add: replicate_add [symmetric])
  moreover have "length bytes + 1 + k + 8 - 8 = length ?pre" "length bytes + 1 + k + 8 - 4 = length ?pre + 4"
    by simp_all
  ultimately show ?thesis
    by (simp only: setUint32_tail)
qed

lemma MD5_updateBytes_pad:
  "MD5_updateBytes h bytes = chunkLoop (rfc1321_pad bytes) (length (rfc1321_pad bytes)) 0 h"
proof -
  have "MD5_updateBytes h bytes =
      chunkLoop ((bytes @ [0x80] @ replicate (nat ((55 - int (length bytes)) mod 64)) 0) @
           rfc1321_bytes (of_nat (length bytes * 8)) @
           rfc1321_bytes (of_nat (length bytes * 8 div 0x100000000)))
        (length bytes + 1 + nat ((55 - int (length bytes)) mod 64) + 8) 0 h"
    unfolding MD5_updateBytes_def Let_def paddingLen_eq final_bytes ..
  also have "(bytes @ [0x80] @ replicate (nat ((55 - int (length bytes)) mod 64)) 0) @
           rfc1321_bytes (of_nat (length bytes * 8)) @
           rfc1321_bytes (of_nat (length bytes * 8 div 0x100000000)) = rfc1321_pad bytes"
    unfolding length64_bytes rfc1321_pad_def by (simp add: mult.commute)
  also have "length bytes + 1 + nat ((55 - int (length bytes)) mod 64) + 8 = length (rfc1321_pad bytes)"
    by (simp add: rfc1321_pad_def rfc1321_length64_def)
  finally show ?thesis .
qed

subsection \<open>The whole message\<close>

lemma length_rfc1321_pad: "64 dvd length (rfc1321_pad m)"
proof -
  have "int (length (rfc1321_pad m)) = (int (length m) + 9) + (55 - int (length m)) mod 64"
    by (simp add: rfc1321_pad_def rfc1321_length64_def)
  also have "\<dots> mod 64 = ((int (length m) + 9) + (55 - int (length m))) mod 64"
    by (rule mod_add_right_eq)
  also have "\<dots> = 0"
    by simp
  finally have "int (length (rfc1321_pad m)) mod 64 = 0" .
  then have "int 64 dvd int (length (rfc1321_pad m))"
    by (simp add: mod_eq_0_iff_dvd)
  then show ?thesis
    by (simp only: int_dvd_int_iff)
qed

lemma chunkLoop_blocks:
  assumes "64 dvd length fin" and "64 dvd i" and "i \<le> length fin"
  shows "chunkLoop fin (length fin) i h = foldl rfc1321_block h (rfc1321_blocks (drop i fin))"
  using assms
proof (induction "length fin - i" arbitrary: i h rule: less_induct)
  case less
  show ?case
  proof (cases "i < length fin")
    case False
    then have "chunkLoop fin (length fin) i h = h"
      by (subst chunkLoop.simps) simp
    then show ?thesis
      using False less.prems by (simp add: rfc1321_blocks.simps [of "[]"])
  next
    case True
    obtain a where a: "length fin = 64 * a"
      using less.prems(1) by (rule dvdE)
    obtain b where b: "i = 64 * b"
      using less.prems(2) by (rule dvdE)
    note ab = a b
    with True have "b < a" by simp
    then have "Suc b \<le> a" by simp
    then have "64 * Suc b \<le> 64 * a" by (rule mult_le_mono2)
    then have next_le: "i + 64 \<le> length fin"
      using ab by simp
    then have len: "length (take 64 (drop i fin)) = 64"
      by simp
    have ne: "drop i fin \<noteq> []"
      using True by simp
    have "chunkLoop fin (length fin) i h =
          chunkLoop fin (length fin) (i + 64) (MD5_processChunk h (take 64 (drop i fin)))"
      using True by (subst chunkLoop.simps) simp
    also have "\<dots> = foldl rfc1321_block (MD5_processChunk h (take 64 (drop i fin)))
                       (rfc1321_blocks (drop (i + 64) fin))"
      using less.prems next_le True by (intro less.hyps) auto
    also have "\<dots> = foldl rfc1321_block h (rfc1321_blocks (drop i fin))"
      using ne by (simp add: rfc1321_blocks.simps [of "drop i fin"] MD5_processChunk_block [OF len] add.commute)
    finally show ?thesis .
  qed
qed

lemma MD5_digest_bytes:
  "MD5_digest (A, B, C, D) = rfc1321_bytes A @ rfc1321_bytes B @ rfc1321_bytes C @ rfc1321_bytes D"
  by (simp add: MD5_digest_def setUint32_def rfc1321_bytes_def upt_0_4 eval_nat_numeral)

lemma MD5_hashBytes_rfc1321: "MD5_hashBytes b = rfc1321_md5 b"
proof -
  have "MD5_updateBytes MD5_constructor b =
        foldl rfc1321_block rfc1321_init (rfc1321_blocks (rfc1321_pad b))"
    using chunkLoop_blocks [OF length_rfc1321_pad, of 0 b MD5_constructor]
    by (simp add: MD5_updateBytes_pad MD5_constructor_def rfc1321_init_def)
  then show ?thesis
    by (simp add: MD5_hashBytes_def rfc1321_md5_def MD5_digest_bytes split: prod.splits)
qed

subsection \<open>Evaluating the class on concrete messages\<close>

lemma addUint32_eval: "addUint32 a b = word_of_int (take_bit 32 (uint a + uint b))"
  by (simp add: addUint32_def word_uint_eq_iff uint_word_ariths take_bit_eq_mod uint_word_of_int)

lemma push_bit_eval: "push_bit k v = word_of_int (take_bit 32 (push_bit k (uint v)))" for v :: uint32
  by (rule bit_word_eqI) (auto simp: bit_simps)

lemma drop_bit_eval: "drop_bit k v = word_of_int (drop_bit k (uint v))" for v :: uint32
  by (rule bit_word_eqI) (auto simp: bit_simps)

lemma leftRotate_eval:
  "leftRotate v n = word_of_int (take_bit 32 (push_bit (n mod 32) (uint v)))
                      OR word_of_int (drop_bit ((32 - n) mod 32) (uint v))"
  unfolding leftRotate_def
  by (rule arg_cong2 [where f = "(OR)"], rule push_bit_eval, rule drop_bit_eval)

lemma md5_step_eval:
  "md5_step w i (a, b, c, d) =
     (d, addUint32 b (leftRotate
           (addUint32 (addUint32 a (md5_f i b c d)) (addUint32 (getK i) (w ! md5_g i)))
           (getR i)), b, c)"
  by (simp add: md5_step_def)

lemma mainLoop_start: "mainLoop w 0 s = mainLoop w 2 (md5_step w 1 (md5_step w 0 s))"
  using mainLoop_step [of 0 w s] mainLoop_step [of 1 w "md5_step w 0 s"]
  by (simp add: numeral_2_eq_2)

lemma mainLoop_numeral:
  "mainLoop w (numeral n) s =
     (if numeral n < (64::nat) then mainLoop w (Suc (numeral n)) (md5_step w (numeral n) s) else s)"
  by (cases s) (simp add: mainLoop.simps [of w "numeral n"] md5_step_def md5_f_def md5_g_def Let_def)

lemmas md5_eval = mainLoop_start mainLoop_numeral md5_step_eval md5_f_def md5_g_def
  addUint32_eval leftRotate_eval getK_def getR_def

lemma pad_empty: "rfc1321_pad [] = 0x80 # replicate 63 0"
  by (simp add: rfc1321_pad_def rfc1321_length64_def upt_0_8 eval_nat_numeral)

lemma words_empty:
  "map (\<lambda>i. getUint32 (0x80 # replicate 63 0) (i * 4)) [0..<16] =
     [128, 0, 0, 0, 0, 0, 0, 0, 0, 0, 0, 0, 0, 0, 0, 0]"
  by (simp add: upt_0_16 getUint32_def)

lemma mainLoop_empty:
  "mainLoop [128, 0, 0, 0, 0, 0, 0, 0, 0, 0, 0, 0, 0, 0, 0, 0] 0
     (0x67452301, 0xEFCDAB89, 0x98BADCFE, 0x10325476) =
   (1917254355, 350508294, 4283343851, 1846584438)"
  by (simp add: md5_eval)

lemma MD5_hashBytes_empty:
  "MD5_hashBytes [] = [212, 29, 140, 217, 143, 0, 178, 4, 233, 128, 9, 152, 236, 248, 66, 126]"
proof -
  have "MD5_updateBytes MD5_constructor [] =
        chunkLoop (0x80 # replicate 63 0) 64 0 MD5_constructor"
    by (simp add: MD5_updateBytes_pad pad_empty)
  also have "\<dots> = MD5_processChunk MD5_constructor (0x80 # replicate 63 0)"
    by (simp add: chunkLoop.simps [of _ 64 0] chunkLoop.simps [of _ 64 64])
  also have "\<dots> = (3649838548, 78774415, 2550759657, 2118318316)"
    by (simp add: MD5_processChunk_def words_empty MD5_constructor_def mainLoop_empty addUint32_eval)
  finally show ?thesis
    by (simp add: MD5_hashBytes_def MD5_digest_bytes rfc1321_bytes_def upt_0_4 drop_bit_eval)
qed

lemma pad_abc: "rfc1321_pad [0x61, 0x62, 0x63] = [0x61, 0x62, 0x63, 0x80] @ replicate 52 0 @ [24, 0, 0, 0, 0, 0, 0, 0]"
  by (simp add: rfc1321_pad_def rfc1321_length64_def upt_0_8)

lemma words_abc:
  "map (\<lambda>i. getUint32 ([0x61, 0x62, 0x63, 0x80] @ replicate 52 0 @ [24, 0, 0, 0, 0, 0, 0, 0]) (i * 4)) [0..<16] =
     [2153996897, 0, 0, 0, 0, 0, 0, 0, 0, 0, 0, 0, 0, 0, 24, 0]"
  by (simp add: upt_0_16 getUint32_def nth_append)

lemma mainLoop_abc:
  "mainLoop [2153996897, 0, 0, 0, 0, 0, 0, 0, 0, 0, 0, 0, 0, 0, 24, 0] 0
     (0x67452301, 0xEFCDAB89, 0x98BADCFE, 0x10325476) =
   (822795919, 3229755059, 3833903576, 1649249458)"
  by (simp add: md5_eval)

lemma MD5_hashBytes_abc:
  "MD5_hashBytes [0x61, 0x62, 0x63] =
     [144, 1, 80, 152, 60, 210, 79, 176, 214, 150, 63, 125, 40, 225, 127, 114]"
proof -
  let ?m = "[0x61, 0x62, 0x63, 0x80] @ replicate 52 0 @ [24, 0, 0, 0, 0, 0, 0, 0] :: byte list"
  have "MD5_updateBytes MD5_constructor [0x61, 0x62, 0x63] = chunkLoop ?m 64 0 MD5_constructor"
    by (simp add: MD5_updateBytes_pad pad_abc)
  also have "\<dots> = MD5_processChunk MD5_constructor ?m"
    by (simp add: chunkLoop.simps [of _ 64 0] chunkLoop.simps [of _ 64 64])
  also have "\<dots> = (2555380112, 2958021180, 2101319382, 1920983336)"
    by (simp only: MD5_processChunk_def words_abc MD5_constructor_def mainLoop_abc Let_def prod.case)
       (simp add: addUint32_eval)
  finally show ?thesis
    by (simp add: MD5_hashBytes_def MD5_digest_bytes rfc1321_bytes_def upt_0_4 drop_bit_eval)
qed

lemma encode_abc: "TextEncoder_encode (js ''abc'') = [0x61, 0x62, 0x63]"
  by (simp add: TextEncoder_encode_def js_def is_lead_surrogate_def is_trail_surrogate_def
      utf8_encode_cp_def)

lemma hex_empty_digest:
  "lowercase_hex [212, 29, 140, 217, 143, 0, 178, 4, 233, 128, 9, 152, 236, 248, 66, 126] =
     js ''d41d8cd98f00b204e9800998ecf8427e''"
  by (simp add: lowercase_hex_def hex_digit_lower_def js_def)

lemma hex_abc_digest:
  "lowercase_hex [144, 1, 80, 152, 60, 210, 79, 176, 214, 150, 63, 125, 40, 225, 127, 114] =
     js ''900150983cd24fb0d6963f7d28e17f72''"
  by (simp add: lowercase_hex_def hex_digit_lower_def js_def)

section \<open>C2: MD5.hashBytes is the RFC 1321 digest\<close>

text \<open>
  C2.  For every byte sequence \<open>b\<close>, \<open>MD5.hashBytes(b)\<close> is the MD5 digest of RFC 1321:
  the message is padded with a \<open>0x80\<close> byte, zero bytes up to 56 modulo 64 and the 64-bit
  little-endian bit length, and each 64-byte block goes through the four rounds of sixteen
  operations with the standard shift and constant tables.  In particular the digest of
  the empty message prints as \<open>d41d8cd98f00b204e9800998ecf8427e\<close> and the digest of
  \<open>abc\<close> as \<open>900150983cd24fb0d6963f7d28e17f72\<close>.
\<close>

theorem MD5_hashBytes_is_rfc1321_md5:
  "(\<forall>b. MD5_hashBytes b = rfc1321_md5 b)
   \<and> bytes_to_hex (MD5_hashBytes []) = js ''d41d8cd98f00b204e9800998ecf8427e''
   \<and> bytes_to_hex (MD5_hashBytes (TextEncoder_encode (js ''abc''))) =
       js ''900150983cd24fb0d6963f7d28e17f72''"
  by (simp only: MD5_hashBytes_rfc1321 [symmetric] MD5_hashBytes_empty encode_abc
      MD5_hashBytes_abc bytes_to_hex_lowercase hex_empty_digest hex_abc_digest) simp


section \<open>Base64\<close>

lemma byte_lt_256: "unat (b :: byte) < 256"
  using unsigned_less [of b, where ?'a = nat] by simp

lemma sextet_bounds:
  fixes a b c :: byte
  shows "unat a div 4 < 64" "unat a mod 4 * 16 < 64" "unat a mod 4 * 16 + unat b div 16 < 64"
    "unat b mod 16 * 4 < 64" "unat b mod 16 * 4 + unat c div 64 < 64" "unat c mod 64 < 64"
  using byte_lt_256 [of a] byte_lt_256 [of b] byte_lt_256 [of c] by simp_all

lemma base64_sextets_lt: "n \<in> set (base64_sextets bs) \<Longrightarrow> n < 64"
  by (induction bs arbitrary: n rule: base64_sextets.induct) (auto simp: sextet_bounds)

lemma base64_encode_split:
  "base64_encode bs =
     map base64_char (base64_sextets bs) @ replicate ((3 - length bs mod 3) mod 3) 0x3D"
  by (induction bs rule: base64_encode.induct) (simp_all add: numeral_2_eq_2 mod_Suc)

lemma length_sextets_mod4: "length (base64_sextets bs) mod 4 \<noteq> 1"
  by (induction bs rule: base64_sextets.induct) simp_all

lemma length_base64_encode: "length (base64_encode bs) mod 4 = 0"
  by (induction bs rule: base64_encode.induct) simp_all

lemma sextet_arith:
  fixes x y z :: nat
  assumes "y < 256" "z < 256"
  shows "x div 4 * 4 + (x mod 4 * 16 + y div 16) div 16 = x"
    and "(x mod 4 * 16 + y div 16) mod 16 * 16 + (y mod 16 * 4 + z div 64) div 4 = y"
    and "(y mod 16 * 4 + z div 64) mod 4 * 64 + z mod 64 = z"
    and "x div 4 * 4 + x mod 4 * 16 div 16 = x"
    and "(x mod 4 * 16 + y div 16) mod 16 * 16 + y mod 16 * 4 div 4 = y"
proof -
  have y: "y div 16 < 16" and z: "z div 64 < 4"
    using assms by simp_all
  show "x div 4 * 4 + (x mod 4 * 16 + y div 16) div 16 = x"
    using y by simp
  show "(x mod 4 * 16 + y div 16) mod 16 * 16 + (y mod 16 * 4 + z div 64) div 4 = y"
    using y z by simp
  show "(y mod 16 * 4 + z div 64) mod 4 * 64 + z mod 64 = z"
    using z by simp
  show "x div 4 * 4 + x mod 4 * 16 div 16 = x"
    by simp
  show "(x mod 4 * 16 + y div 16) mod 16 * 16 + y mod 16 * 4 div 4 = y"
    using y by simp
qed

lemma base64_decode_sextets_inverse: "base64_decode_sextets (base64_sextets bs) = bs"
proof (induction bs rule: base64_sextets.induct)
  case 1
  show ?case by simp
next
  case (2 a)
  have "(of_nat (unat a div 4 * 4 + unat a mod 4 * 16 div 16) :: byte) = a"
    by (simp only: sextet_arith(4) [OF byte_lt_256 byte_lt_256]) simp
  then show ?case
    by (simp only: base64_sextets.simps base64_decode_sextets.simps)
next
  case (3 a b)
  have "(of_nat (unat a div 4 * 4 + (unat a mod 4 * 16 + unat b div 16) div 16) :: byte) = a"
    by (simp only: sextet_arith(1) [OF byte_lt_256 byte_lt_256]) simp
  moreover have "(of_nat ((unat a mod 4 * 16 + unat b div 16) mod 16 * 16 + unat b mod 16 * 4 div 4) :: byte) = b"
    by (simp only: sextet_arith(5) [OF byte_lt_256 byte_lt_256]) simp
  ultimately show ?case
    by (simp only: base64_sextets.simps base64_decode_sextets.simps)
next
  case (4 a b c rest)
  have "(of_nat (unat a div 4 * 4 + (unat a mod 4 * 16 + unat b div 16) div 16) :: byte) = a"
    by (simp only: sextet_arith(1) [OF byte_lt_256 byte_lt_256]) simp
  moreover have "(of_nat ((unat a mod 4 * 16 + unat b div 16) mod 16 * 16 + (unat b mod 16 * 4 + unat c div 64) div 4) :: byte) = b"
    by (simp only: sextet_arith(2) [OF byte_lt_256 byte_lt_256]) simp
  moreover have "(of_nat ((unat b mod 16 * 4 + unat c div 64) mod 4 * 64 + unat c mod 64) :: byte) = c"
    by (simp only: sextet_arith(3) [OF byte_lt_256 byte_lt_256]) simp
  ultimately show ?case
    using 4 by (simp only: base64_sextets.simps base64_decode_sextets.simps append_Cons append_Nil)
qed

lemma index_of_nth: "distinct xs \<Longrightarrow> n < length xs \<Longrightarrow> index_of xs (xs ! n) = Some n"
proof (induction xs arbitrary: n)
  case Nil
  then show ?case by simp
next
  case (Cons y ys)
  show ?case
  proof (cases n)
    case 0
    then show ?thesis by simp
  next
    case (Suc m)
    with Cons.prems have "ys ! m \<in> set ys" "y \<notin> set ys" by auto
    then have "ys ! m \<noteq> y" by auto
    with Suc Cons show ?thesis by simp
  qed
qed

lemma base64_alphabet_props:
  "length base64_alphabet = 64" "distinct base64_alphabet"
  "\<forall>c \<in> set base64_alphabet. c \<noteq> 0x3D \<and> \<not> is_ascii_whitespace c"
  by (simp_all add: base64_alphabet_def js_def is_ascii_whitespace_def)

lemma base64_value_char: "n < 64 \<Longrightarrow> base64_value (base64_char n) = Some n"
  unfolding base64_value_def base64_char_def
  by (rule index_of_nth) (simp_all add: base64_alphabet_props)

lemma base64_char_props:
  assumes "n < 64"
  shows "base64_char n \<noteq> 0x3D" "\<not> is_ascii_whitespace (base64_char n)"
proof -
  have "base64_char n \<in> set base64_alphabet"
    unfolding base64_char_def using assms by (intro nth_mem) (simp add: base64_alphabet_props)
  then show "base64_char n \<noteq> 0x3D" "\<not> is_ascii_whitespace (base64_char n)"
    using base64_alphabet_props(3) by blast+
qed

lemma endsWith_one: "endsWith xs [y] \<longleftrightarrow> xs \<noteq> [] \<and> last xs = y"
  by (cases xs rule: rev_cases) (simp_all add: endsWith_def)

lemma endsWith_two: "endsWith xs [x, y] \<longleftrightarrow> (\<exists>p. xs = p @ [x, y])"
proof
  assume "endsWith xs [x, y]"
  then have "xs = take (length xs - 2) xs @ [x, y]"
    unfolding endsWith_def by (metis append_take_drop_id length_Cons list.size(3) numeral_2_eq_2)
  then show "\<exists>p. xs = p @ [x, y]" ..
next
  assume "\<exists>p. xs = p @ [x, y]"
  then show "endsWith xs [x, y]"
    by (auto simp: endsWith_def)
qed

lemma strip_base64_padding_encode:
  "strip_base64_padding (base64_encode bs) = map base64_char (base64_sextets bs)"
proof -
  let ?body = "map base64_char (base64_sextets bs)"
  let ?k = "(3 - length bs mod 3) mod 3"
  have enc: "base64_encode bs = ?body @ replicate ?k 0x3D"
    by (rule base64_encode_split)
  have body: "c \<noteq> 0x3D" if "c \<in> set ?body" for c
    using that base64_sextets_lt base64_char_props(1) by auto
  have no1: "\<not> endsWith ?body [0x3D]"
  proof
    assume "endsWith ?body [0x3D]"
    then have "?body \<noteq> []" "last ?body = 0x3D"
      by (simp_all add: endsWith_one)
    then have "0x3D \<in> set ?body"
      using last_in_set [of ?body] by metis
    then show False using body by blast
  qed
  have no2: "\<not> endsWith (?body @ ps) [0x3D, 0x3D]" if "length ps \<le> 1" for ps
  proof
    assume "endsWith (?body @ ps) [0x3D, 0x3D]"
    then obtain p where p: "?body @ ps = p @ [0x3D, 0x3D]"
      unfolding endsWith_two by blast
    show False
    proof (cases ps)
      case Nil
      with p have "0x3D \<in> set ?body" by (metis append_Nil2 in_set_conv_decomp)
      then show False using body by blast
    next
      case (Cons q qs)
      with that have "ps = [q]" by simp
      with p have "?body @ [q] = (p @ [0x3D]) @ [0x3D]" by simp
      then have "?body = p @ [0x3D]" by (simp only: append1_eq_conv)
      then have "0x3D \<in> set ?body" by (metis in_set_conv_decomp)
      then show False using body by blast
    qed
  qed
  have "?k = 0 \<or> ?k = 1 \<or> ?k = 2"
    by linarith
  then show ?thesis
  proof (elim disjE)
    assume k: "?k = 0"
    then show ?thesis
      using no1 no2 [of "[]"] unfolding enc k
      by (simp add: strip_base64_padding_def js_def)
  next
    assume k: "?k = 1"
    show ?thesis
      using no2 [of "[0x3D]"] length_base64_encode [of bs] unfolding enc k
      by (simp add: strip_base64_padding_def js_def endsWith_one)
  next
    assume k: "?k = 2"
    have "endsWith (?body @ [0x3D, 0x3D]) [0x3D, 0x3D]"
      unfolding endsWith_two by blast
    then show ?thesis
      using length_base64_encode [of bs] unfolding enc k
      by (simp add: strip_base64_padding_def js_def numeral_2_eq_2)
  qed
qed

lemma atob_base64_encode: "atob (base64_encode bs) = Inr (map ucast bs)"
proof -
  let ?body = "map base64_char (base64_sextets bs)"
  have "\<not> is_ascii_whitespace c" if "c \<in> set (base64_encode bs)" for c
    using that base64_sextets_lt base64_char_props(2)
    by (auto simp: base64_encode_split is_ascii_whitespace_def)
  then have 1: "filter (\<lambda>c. \<not> is_ascii_whitespace c) (base64_encode bs) = base64_encode bs"
    by (simp add: filter_id_conv)
  have 2: "length ?body mod 4 \<noteq> 1"
    using length_sextets_mod4 [of bs] by simp
  have val: "base64_value (base64_char n) = Some n" if "n \<in> set (base64_sextets bs)" for n
    using that by (intro base64_value_char base64_sextets_lt)
  then have 3: "list_all (\<lambda>c. base64_value c \<noteq> None) ?body"
    by (simp add: list_all_iff)
  have 4: "map (\<lambda>c. the (base64_value c)) ?body = base64_sextets bs"
    using val by (simp add: map_idI)
  show ?thesis
    unfolding atob_def Let_def 1 strip_base64_padding_encode
    using 2 3 by (simp only: 4 base64_decode_sextets_inverse if_False simp_thms)
qed

lemma ucast_byte_le: "(ucast (x :: byte) :: 16 word) \<le> 0xFF"
proof -
  have "uint (ucast x :: 16 word) = uint x"
    by (rule uint_up_ucast) (simp add: is_up)
  moreover have "uint x < 256"
    using uint_bounded [of x] by simp
  ultimately show ?thesis
    by (simp add: word_le_def)
qed

lemma ucast_byte_round_trip: "(ucast (ucast (x :: byte) :: 16 word) :: byte) = x"
  by (rule ucast_up_ucast_id) (simp add: is_up)

lemma btoa_bytes: "btoa (map ucast (bs :: byte list)) = Inr (base64_encode bs)"
proof -
  have "list_all (\<lambda>c. c \<le> 0xFF) (map ucast bs :: jsstring)"
    by (simp add: list_all_iff ucast_byte_le)
  moreover have "map ucast (map ucast bs :: jsstring) = bs"
    by (induction bs) (simp_all add: ucast_byte_round_trip)
  ultimately show ?thesis
    by (simp only: btoa_def if_True)
qed

lemma base64_round_trip:
  "arrayBufferToBase64 b = Inr (base64_encode b) \<and> base64ToArrayBuffer (base64_encode b) = Inr b"
proof -
  have "map ucast (map ucast b :: jsstring) = b"
    by (induction b) (simp_all add: ucast_byte_round_trip)
  then show ?thesis
    by (simp only: arrayBufferToBase64_def base64ToArrayBuffer_def btoa_bytes atob_base64_encode
        Let_def sum.case simp_thms)
qed

section \<open>The envelopes of CryptoManager\<close>

lemma arrayBufferToBase64_eq [simp]: "arrayBufferToBase64 b = Inr (base64_encode b)"
  using base64_round_trip [of b] by simp

lemma base64ToArrayBuffer_encode [simp]: "base64ToArrayBuffer (base64_encode b) = Inr b"
  using base64_round_trip [of b] by simp

lemma encryptString_Inr:
  "encryptString P this salt iv text passphrase = Inr env \<longleftrightarrow>
     (\<exists>key ct. deriveKey P this passphrase salt = Inr key \<and>
        subtle_encrypt_aes_gcm P key iv (tagLength this * 8) (TextEncoder_encode text) = Inr ct \<and>
        env = \<lparr> es_encryptedData = base64_encode ct, es_salt = base64_encode salt,
                es_iv = base64_encode iv \<rparr>)"
  by (auto simp: encryptString_def Let_def split: sum.splits)

lemma encryptFile_Inr:
  "encryptFile P this salt iv now file passphrase = Inr env \<Longrightarrow>
     \<exists>key. deriveKey P this passphrase salt = Inr key \<and>
        subtle_encrypt_aes_gcm P key iv (tagLength this * 8) (file_bytes file) = Inr (ef_encryptedData env) \<and>
        ef_salt env = salt \<and> ef_iv env = iv"
  by (auto simp: encryptFile_def Let_def split: sum.splits)

section \<open>C10: the base64 helpers are mutually inverse\<close>

text \<open>
  C10.  For every byte buffer \<open>b\<close>, \<open>arrayBufferToBase64(b)\<close> returns a string, and
  \<open>base64ToArrayBuffer\<close> of that string is a buffer holding exactly the bytes of \<open>b\<close>.
  Hence the three fields of every envelope that \<open>encryptString\<close> returns decode back to
  the ciphertext, the salt and the nonce that were sealed.
\<close>

theorem base64_helpers_inverse:
  "(\<exists>s. arrayBufferToBase64 b = Inr s \<and> base64ToArrayBuffer s = Inr b)
   \<and> (encryptString P this salt iv text passphrase = Inr env \<longrightarrow>
        (\<exists>key ct. deriveKey P this passphrase salt = Inr key \<and>
           subtle_encrypt_aes_gcm P key iv (tagLength this * 8) (TextEncoder_encode text) = Inr ct \<and>
           base64ToArrayBuffer (es_encryptedData env) = Inr ct \<and>
           base64ToArrayBuffer (es_salt env) = Inr salt \<and>
           base64ToArrayBuffer (es_iv env) = Inr iv))"
proof
  show "\<exists>s. arrayBufferToBase64 b = Inr s \<and> base64ToArrayBuffer s = Inr b"
    using base64_round_trip [of b] by blast
  show "encryptString P this salt iv text passphrase = Inr env \<longrightarrow>
        (\<exists>key ct. deriveKey P this passphrase salt = Inr key \<and>
           subtle_encrypt_aes_gcm P key iv (tagLength this * 8) (TextEncoder_encode text) = Inr ct \<and>
           base64ToArrayBuffer (es_encryptedData env) = Inr ct \<and>
           base64ToArrayBuffer (es_salt env) = Inr salt \<and>
           base64ToArrayBuffer (es_iv env) = Inr iv)"
    unfolding encryptString_Inr by auto
qed

lemma stub_encryptString:
  "encryptString stub_platform CryptoManager_constructor salt iv text passphrase =
     Inr \<lparr> es_encryptedData = base64_encode
             (TextEncoder_encode text @ stub_tag (TextEncoder_encode passphrase @ salt) iv),
           es_salt = base64_encode salt, es_iv = base64_encode iv \<rparr>"
  by (simp add: encryptString_Inr deriveKey_def stub_platform_def)

theorem base64_helpers_inverse_witness:
  "(\<exists>s. arrayBufferToBase64 [0, 255, 16] = Inr s \<and> base64ToArrayBuffer s = Inr [0, 255, 16])
   \<and> base64ToArrayBuffer (base64_encode [1, 2]) = Inr [1, 2]
   \<and> base64ToArrayBuffer (base64_encode [3]) = Inr [3]"
  using base64_helpers_inverse [of "[0, 255, 16]" stub_platform CryptoManager_constructor
      "[1, 2]" "[3]" "js ''hi''" "js ''pw''"
      "\<lparr> es_encryptedData = base64_encode
             (TextEncoder_encode (js ''hi'') @ stub_tag (TextEncoder_encode (js ''pw'') @ [1, 2]) [3]),
           es_salt = base64_encode [1, 2], es_iv = base64_encode [3] \<rparr>"]
    stub_encryptString [of "[1, 2]" "[3]" "js ''hi''" "js ''pw''"]
  by auto

section \<open>C7: the SSE-C headers\<close>

lemma btoa_fromCharCode_eq [simp]: "btoa_fromCharCode bytes = Inr (base64_encode bytes)"
  by (simp add: btoa_fromCharCode_def btoa_bytes)

text \<open>
  C7.  For every passphrase, on a page that has loaded the MD5 class, \<open>getSSEHeaders\<close>
  returns exactly three headers: the algorithm \<open>AES256\<close>, the base64 encoding of the raw
  key, which is the single SHA-256 digest of the UTF-8 bytes of the passphrase, and the
  base64 encoding of the digest that \<open>MD5.hashBytes\<close> computes of the same raw key.
  Decoding the two values gives back the raw key and its RFC 1321 digest, which is what
  the store compares.
\<close>

theorem getSSEHeaders_three_headers:
  "window_MD5 P \<longrightarrow> encryption_key cfg = Some passphrase \<longrightarrow>
     (let rawKey = subtle_digest_sha256 P (TextEncoder_encode passphrase)
      in getSSEHeaders P (S3ClientSSE_constructor P cfg) =
           Inr [(js ''x-amz-server-side-encryption-customer-algorithm'', js ''AES256''),
                (js ''x-amz-server-side-encryption-customer-key'', base64_encode rawKey),
                (js ''x-amz-server-side-encryption-customer-key-MD5'',
                   base64_encode (MD5_hashBytes rawKey))]
           \<and> base64ToArrayBuffer (base64_encode rawKey) = Inr rawKey
           \<and> base64ToArrayBuffer (base64_encode (MD5_hashBytes rawKey)) = Inr (rfc1321_md5 rawKey))"
  by (simp add: getSSEHeaders_def calculateMD5_def S3ClientSSE_constructor_def generateSSEKey_def TextEncoder_encode_arg_def
      Let_def MD5_hashBytes_rfc1321)

theorem getSSEHeaders_three_headers_witness:
  "(let rawKey = subtle_digest_sha256 stub_platform (TextEncoder_encode (js ''pw''))
    in getSSEHeaders stub_platform (S3ClientSSE_constructor stub_platform
         \<lparr> s3_endpoint = None, s3_region = None, s3_bucket = None, s3_access_key = None,
           s3_secret_key = None, path_prefix = None, encryption_key = Some (js ''pw'') \<rparr>) =
       Inr [(js ''x-amz-server-side-encryption-customer-algorithm'', js ''AES256''),
            (js ''x-amz-server-side-encryption-customer-key'', base64_encode rawKey),
            (js ''x-amz-server-side-encryption-customer-key-MD5'',
               base64_encode (MD5_hashBytes rawKey))]
       \<and> base64ToArrayBuffer (base64_encode rawKey) = Inr rawKey
       \<and> base64ToArrayBuffer (base64_encode (MD5_hashBytes rawKey)) = Inr (rfc1321_md5 rawKey))"
proof -
  have a: "window_MD5 stub_platform"
    by (simp add: stub_platform_def)
  show ?thesis
    using getSSEHeaders_three_headers [of stub_platform
        "\<lparr> s3_endpoint = None, s3_region = None, s3_bucket = None, s3_access_key = None,
          s3_secret_key = None, path_prefix = None, encryption_key = Some (js ''pw'') \<rparr>" "js ''pw''"] a
    by simp
qed

section \<open>C9: the path prefix\<close>

lemma endsWith_append_self [simp]: "endsWith (q @ s) s"
  by (simp add: endsWith_def)

lemma S3Client_constructor_path_prefix:
  "path_prefix (config (S3Client_constructor cfg)) = Some (path_prefix_spec cfg)"
  by (simp add: S3Client_constructor_def path_prefix_spec_def or_default_def Let_def endsWith_def js_def
      split: option.splits)

lemma endsWith_path_prefix_spec: "endsWith (path_prefix_spec cfg) (js ''/'')"
  by (auto simp: path_prefix_spec_def endsWith_def js_def split: option.splits)

lemma S3Client_constructor_fields:
  "s3_endpoint (config (S3Client_constructor cfg)) = s3_endpoint cfg"
  "s3_bucket (config (S3Client_constructor cfg)) = s3_bucket cfg"
  by (simp_all add: S3Client_constructor_def Let_def)

lemma S3Client_generatePresignedUrl_Inr:
  assumes "S3Client_generatePresignedUrl P this now key method expiresIn = Inr url"
  shows "\<exists>enc q. encodeURIComponent key = Inr enc \<and>
           url = template (s3_endpoint (config this)) @ js ''/'' @ template (s3_bucket (config this))
                   @ js ''/'' @ replace_percent_2F enc @ js ''?'' @ q"
  using assms
  by (auto simp: S3Client_generatePresignedUrl_def canonicalUri_of_def Let_def
      split: sum.splits)

lemma S3Client_generatePresignedUrl_succeeds:
  assumes "encodeURIComponent key = Inr enc"
    and "url_host P (template (s3_endpoint (config this))) = Inr host"
  shows "\<exists>url. S3Client_generatePresignedUrl P this now key method expiresIn = Inr url"
  using assms
  by (simp add: S3Client_generatePresignedUrl_def canonicalUri_of_def Let_def)

lemma listObjects_url:
  "URLSearchParams_toString (listObjects_params fullPrefix maxKeys) =
     js ''list-type=2&prefix='' @ urlencoded_string fullPrefix @ js ''&max-keys=''
       @ urlencoded_string (Number_toString maxKeys)"
proof -
  have "urlencoded_string (js ''list-type'') = js ''list-type''"
    "urlencoded_string (js ''2'') = js ''2''"
    "urlencoded_string (js ''prefix'') = js ''prefix''"
    "urlencoded_string (js ''max-keys'') = js ''max-keys''"
    by (simp_all add: urlencoded_string_def urlencoded_byte_def TextEncoder_encode_def js_def
        utf8_encode_cp_def is_lead_surrogate_def is_trail_surrogate_def is_ascii_alphanumeric_def)
  then show ?thesis
    by (simp add: URLSearchParams_toString_def listObjects_params_def js_def)
qed

text \<open>
  C9.  After construction the stored \<open>path_prefix\<close> ends with a slash: it is \<open>photos/\<close>
  when the configuration has none, and the configured prefix otherwise, with a slash
  appended when it has none.  Every request that \<open>uploadFile\<close>, \<open>downloadFile\<close> or
  \<open>deleteObject\<close> sends goes to the URL presigned for the stored prefix followed by the
  caller's key, which is \<open>endpoint/bucket/\<close> followed by the percent-encoded prefix and
  key (slashes kept) and the query; when they fail, presigning that key has failed.
  Every request that \<open>listObjects\<close> sends asks for the stored prefix followed by the
  caller's prefix in its \<open>prefix\<close> parameter, and is signed over the same parameters.
\<close>

theorem S3Client_operates_under_path_prefix:
  "(let this = S3Client_constructor cfg; p = path_prefix_spec cfg;
        bucketUrl = template (s3_endpoint cfg) @ js ''/'' @ template (s3_bucket cfg) in
      path_prefix (config this) = Some p \<and> endsWith p (js ''/'')
      \<and> (\<forall>r. S3Client_uploadFile P this now file key = Inr r \<longrightarrow>
            request_method r = js ''PUT'' \<and> request_body r = Some (file_bytes file) \<and>
            S3Client_generatePresignedUrl P this now (p @ key) (js ''PUT'') 3600 = Inr (request_url r) \<and>
            (\<exists>enc q. encodeURIComponent (p @ key) = Inr enc \<and>
               request_url r = bucketUrl @ js ''/'' @ replace_percent_2F enc @ js ''?'' @ q))
      \<and> (\<forall>e. S3Client_uploadFile P this now file key = Inl e \<longrightarrow>
            (\<exists>e'. S3Client_generatePresignedUrl P this now (p @ key) (js ''PUT'') 3600 = Inl e'))
      \<and> (\<forall>r. S3Client_downloadFile P this now key = Inr r \<longrightarrow>
            request_method r = js ''GET'' \<and>
            S3Client_generatePresignedUrl P this now (p @ key) (js ''GET'') 3600 = Inr (request_url r) \<and>
            (\<exists>enc q. encodeURIComponent (p @ key) = Inr enc \<and>
               request_url r = bucketUrl @ js ''/'' @ replace_percent_2F enc @ js ''?'' @ q))
      \<and> (\<forall>e. S3Client_downloadFile P this now key = Inl e \<longrightarrow>
            (\<exists>e'. S3Client_generatePresignedUrl P this now (p @ key) (js ''GET'') 3600 = Inl e'))
      \<and> (\<forall>r. S3Client_deleteObject P this now key = Inr r \<longrightarrow>
            request_method r = js ''DELETE'' \<and>
            S3Client_generatePresignedUrl P this now (p @ key) (js ''DELETE'') 3600 = Inr (request_url r) \<and>
            (\<exists>enc q. encodeURIComponent (p @ key) = Inr enc \<and>
               request_url r = bucketUrl @ js ''/'' @ replace_percent_2F enc @ js ''?'' @ q))
      \<and> (\<forall>e. S3Client_deleteObject P this now key = Inl e \<longrightarrow>
            (\<exists>e'. S3Client_generatePresignedUrl P this now (p @ key) (js ''DELETE'') 3600 = Inl e'))
      \<and> (\<forall>r. S3Client_listObjects P this now prefix maxKeys = Inr r \<longrightarrow>
            request_method r = js ''GET'' \<and>
            request_url r = bucketUrl @ js ''?list-type=2&prefix='' @ urlencoded_string (p @ prefix)
              @ js ''&max-keys='' @ urlencoded_string (Number_toString maxKeys) \<and>
            S3Client_generateAuthHeaders P this now (js ''GET'') (js ''/'' @ template (s3_bucket cfg))
              (listObjects_params (p @ prefix) maxKeys) = Inr (request_headers r))
      \<and> (\<forall>e. S3Client_listObjects P this now prefix maxKeys = Inl e \<longrightarrow>
            (\<exists>e'. S3Client_generateAuthHeaders P this now (js ''GET'') (js ''/'' @ template (s3_bucket cfg))
              (listObjects_params (p @ prefix) maxKeys) = Inl e')))"
proof -
  let ?c = "S3Client_constructor cfg"
  let ?pre = "path_prefix_spec cfg"
  have pp: "path_prefix (config ?c) = Some ?pre"
    by (rule S3Client_constructor_path_prefix)
  have url: "\<exists>enc q. encodeURIComponent (?pre @ key) = Inr enc \<and>
      u = template (s3_endpoint cfg) @ js ''/'' @ template (s3_bucket cfg) @ js ''/''
            @ replace_percent_2F enc @ js ''?'' @ q"
    if "S3Client_generatePresignedUrl P ?c now (?pre @ key) m 3600 = Inr u" for m u
    using S3Client_generatePresignedUrl_Inr [OF that] by (simp add: S3Client_constructor_fields)
  have up: "request_method r = js ''PUT'' \<and> request_body r = Some (file_bytes file) \<and>
      S3Client_generatePresignedUrl P ?c now (?pre @ key) (js ''PUT'') 3600 = Inr (request_url r)"
    if "S3Client_uploadFile P ?c now file key = Inr r" for r
    using that by (auto simp: S3Client_uploadFile_def pp template_def Let_def split: sum.splits)
  have upE: "\<exists>e'. S3Client_generatePresignedUrl P ?c now (?pre @ key) (js ''PUT'') 3600 = Inl e'"
    if "S3Client_uploadFile P ?c now file key = Inl e" for e
    using that by (auto simp: S3Client_uploadFile_def pp template_def Let_def split: sum.splits)
  have down: "request_method r = js ''GET'' \<and>
      S3Client_generatePresignedUrl P ?c now (?pre @ key) (js ''GET'') 3600 = Inr (request_url r)"
    if "S3Client_downloadFile P ?c now key = Inr r" for r
    using that by (auto simp: S3Client_downloadFile_def pp template_def Let_def split: sum.splits)
  have downE: "\<exists>e'. S3Client_generatePresignedUrl P ?c now (?pre @ key) (js ''GET'') 3600 = Inl e'"
    if "S3Client_downloadFile P ?c now key = Inl e" for e
    using that by (auto simp: S3Client_downloadFile_def pp template_def Let_def split: sum.splits)
  have del: "request_method r = js ''DELETE'' \<and>
      S3Client_generatePresignedUrl P ?c now (?pre @ key) (js ''DELETE'') 3600 = Inr (request_url r)"
    if "S3Client_deleteObject P ?c now key = Inr r" for r
    using that by (auto simp: S3Client_deleteObject_def pp template_def Let_def split: sum.splits)
  have delE: "\<exists>e'. S3Client_generatePresignedUrl P ?c now (?pre @ key) (js ''DELETE'') 3600 = Inl e'"
    if "S3Client_deleteObject P ?c now key = Inl e" for e
    using that by (auto simp: S3Client_deleteObject_def pp template_def Let_def split: sum.splits)
  have list: "request_method r = js ''GET'' \<and>
      request_url r = (template (s3_endpoint cfg) @ js ''/'' @ template (s3_bucket cfg))
        @ js ''?list-type=2&prefix='' @ urlencoded_string (?pre @ prefix)
        @ js ''&max-keys='' @ urlencoded_string (Number_toString maxKeys) \<and>
      S3Client_generateAuthHeaders P ?c now (js ''GET'') (js ''/'' @ template (s3_bucket cfg))
        (listObjects_params (?pre @ prefix) maxKeys) = Inr (request_headers r)"
    if "S3Client_listObjects P ?c now prefix maxKeys = Inr r" for r
    using that
    by (auto simp: S3Client_listObjects_def pp template_def Let_def S3Client_constructor_fields
        listObjects_url js_def split: sum.splits)
  have listE: "\<exists>e'. S3Client_generateAuthHeaders P ?c now (js ''GET'')
        (js ''/'' @ template (s3_bucket cfg)) (listObjects_params (?pre @ prefix) maxKeys) = Inl e'"
    if "S3Client_listObjects P ?c now prefix maxKeys = Inl e" for e
    using that
    by (auto simp: S3Client_listObjects_def pp template_def Let_def S3Client_constructor_fields
        split: sum.splits)
  show ?thesis
    unfolding Let_def
    using pp endsWith_path_prefix_spec [of cfg] up upE down downE del delE list listE
      url [of "js ''PUT''"] url [of "js ''GET''"] url [of "js ''DELETE''"]
    by (simp only: append_assoc) blast
qed

lemma template_Some: "template (Some s) = s"
  by (simp add: template_def)

lemma S3Client_generateAuthHeaders_succeeds:
  assumes "url_host P (template (s3_endpoint (config this))) = Inr host"
  shows "\<exists>hs. S3Client_generateAuthHeaders P this now method path queryParams = Inr hs"
  using assms by (simp add: S3Client_generateAuthHeaders_def Let_def)

lemma S3Client_generatePresignedUrl_no_host:
  assumes "url_host P (template (s3_endpoint (config this))) = Inl e"
  shows "\<exists>e'. S3Client_generatePresignedUrl P this now key method expiresIn = Inl e'"
  using assms
  by (simp add: S3Client_generatePresignedUrl_def canonicalUri_of_def Let_def split: sum.splits)

lemma S3Client_generateAuthHeaders_no_host:
  assumes "url_host P (template (s3_endpoint (config this))) = Inl e"
  shows "\<exists>e'. S3Client_generateAuthHeaders P this now method path queryParams = Inl e'"
  using assms by (simp add: S3Client_generateAuthHeaders_def Let_def)

lemma vault_prefix: "path_prefix_spec vault_config = js ''pics/''"
  by (simp add: path_prefix_spec_def vault_config_def endsWith_def js_def)

lemma vault_key_encoded: "encodeURIComponent (js ''pics/a b.jpg'') = Inr (js ''pics%2Fa%20b.jpg'')"
  by (simp add: js_Cons js_Nil uriUnescaped_def is_ascii_alphanumeric_def surrogate_defs
      utf8_encode_cp_def percent_encode_byte_def hex_digit_upper_def)

lemma vault_key_replaced: "replace_percent_2F (js ''pics%2Fa%20b.jpg'') = js ''pics/a%20b.jpg''"
  by (simp add: js_Cons js_Nil)

lemma vault_host: "url_host stub_platform (template (s3_endpoint (config (S3Client_constructor vault_config))))
   = Inr (js ''s3.example.com'')"
  by (simp add: S3Client_constructor_fields vault_config_def template_def stub_platform_def js_Cons js_Nil)

lemma vault_list_prefix: "urlencoded_string (js ''pics/2024'') = js ''pics%2F2024''"
  by (simp add: urlencoded_string_def urlencoded_byte_def TextEncoder_encode_def js_Cons js_Nil
        utf8_encode_cp_def surrogate_defs is_ascii_alphanumeric_def percent_encode_byte_def hex_digit_upper_def)

lemma vault_max_keys: "urlencoded_string (Number_toString 1000) = js ''1000''"
  by (simp add: Number_toString.simps urlencoded_string_def urlencoded_byte_def TextEncoder_encode_def js_Cons js_Nil
        utf8_encode_cp_def surrogate_defs is_ascii_alphanumeric_def percent_encode_byte_def hex_digit_upper_def)

lemma no_endpoint_host:
  "url_host stub_platform (template (s3_endpoint (config (S3Client_constructor
      (vault_config \<lparr> s3_endpoint := None \<rparr>))))) = Inl (JsError (js ''TypeError'') (js ''Invalid URL''))"
  by (simp add: S3Client_constructor_fields vault_config_def template_def stub_platform_def js_Cons js_Nil)

lemma no_endpoint_prefix: "path_prefix_spec (vault_config \<lparr> s3_endpoint := None \<rparr>) = js ''pics/''"
  by (simp add: path_prefix_spec_def vault_config_def endsWith_def js_def)

theorem S3Client_operates_under_path_prefix_witness:
  "path_prefix (config (S3Client_constructor vault_config)) = Some (js ''pics/'')
   \<and> (\<exists>r q. S3Client_uploadFile stub_platform (S3Client_constructor vault_config)
          (js ''2024-01-02T03:04:05.678Z'') (FileObject (js ''a b.jpg'') (js ''image/jpeg'') 0 [1, 2, 3])
          (js ''a b.jpg'') = Inr r
        \<and> request_method r = js ''PUT'' \<and> request_body r = Some [1, 2, 3]
        \<and> request_url r = js ''https://s3.example.com/vault/pics/a%20b.jpg?'' @ q)
   \<and> (\<exists>r q. S3Client_downloadFile stub_platform (S3Client_constructor vault_config)
          (js ''2024-01-02T03:04:05.678Z'') (js ''a b.jpg'') = Inr r
        \<and> request_method r = js ''GET''
        \<and> request_url r = js ''https://s3.example.com/vault/pics/a%20b.jpg?'' @ q)
   \<and> (\<exists>r q. S3Client_deleteObject stub_platform (S3Client_constructor vault_config)
          (js ''2024-01-02T03:04:05.678Z'') (js ''a b.jpg'') = Inr r
        \<and> request_method r = js ''DELETE''
        \<and> request_url r = js ''https://s3.example.com/vault/pics/a%20b.jpg?'' @ q)
   \<and> (\<exists>r. S3Client_listObjects stub_platform (S3Client_constructor vault_config)
          (js ''2024-01-02T03:04:05.678Z'') (js ''2024'') 1000 = Inr r
        \<and> request_method r = js ''GET''
        \<and> request_url r =
            js ''https://s3.example.com/vault?list-type=2&prefix=pics%2F2024&max-keys=1000'')
   \<and> (\<exists>e e'. S3Client_uploadFile stub_platform
          (S3Client_constructor (vault_config \<lparr> s3_endpoint := None \<rparr>))
          (js ''2024-01-02T03:04:05.678Z'') (Buffer [1, 2, 3]) (js ''a b.jpg'') = Inl e
        \<and> S3Client_generatePresignedUrl stub_platform
          (S3Client_constructor (vault_config \<lparr> s3_endpoint := None \<rparr>))
          (js ''2024-01-02T03:04:05.678Z'') (js ''pics/a b.jpg'') (js ''PUT'') 3600 = Inl e')
   \<and> (\<exists>e e'. S3Client_downloadFile stub_platform
          (S3Client_constructor (vault_config \<lparr> s3_endpoint := None \<rparr>))
          (js ''2024-01-02T03:04:05.678Z'') (js ''a b.jpg'') = Inl e
        \<and> S3Client_generatePresignedUrl stub_platform
          (S3Client_constructor (vault_config \<lparr> s3_endpoint := None \<rparr>))
          (js ''2024-01-02T03:04:05.678Z'') (js ''pics/a b.jpg'') (js ''GET'') 3600 = Inl e')
   \<and> (\<exists>e e'. S3Client_deleteObject stub_platform
          (S3Client_constructor (vault_config \<lparr> s3_endpoint := None \<rparr>))
          (js ''2024-01-02T03:04:05.678Z'') (js ''a b.jpg'') = Inl e
        \<and> S3Client_generatePresignedUrl stub_platform
          (S3Client_constructor (vault_config \<lparr> s3_endpoint := None \<rparr>))
          (js ''2024-01-02T03:04:05.678Z'') (js ''pics/a b.jpg'') (js ''DELETE'') 3600 = Inl e')
   \<and> (\<exists>e e'. S3Client_listObjects stub_platform
          (S3Client_constructor (vault_config \<lparr> s3_endpoint := None \<rparr>))
          (js ''2024-01-02T03:04:05.678Z'') (js ''2024'') 1000 = Inl e
        \<and> S3Client_generateAuthHeaders stub_platform
          (S3Client_constructor (vault_config \<lparr> s3_endpoint := None \<rparr>))
          (js ''2024-01-02T03:04:05.678Z'') (js ''GET'') (js ''/vault'')
          (listObjects_params (js ''pics/2024'') 1000) = Inl e')"
proof -
  let ?P = stub_platform
  let ?c = "S3Client_constructor vault_config"
  let ?d = "S3Client_constructor (vault_config \<lparr> s3_endpoint := None \<rparr>)"
  let ?now = "js ''2024-01-02T03:04:05.678Z''"
  let ?file = "FileObject (js ''a b.jpg'') (js ''image/jpeg'') 0 [1, 2, 3]"
  let ?key = "js ''a b.jpg''"
  have cat: "js ''pics/'' @ ?key = js ''pics/a b.jpg''" "js ''pics/'' @ js ''2024'' = js ''pics/2024''"
    by (simp_all add: js_def)
  have base: "template (s3_endpoint vault_config) @ js ''/'' @ template (s3_bucket vault_config)
      = js ''https://s3.example.com/vault''"
    "js ''/'' @ template (s3_bucket vault_config) = js ''/vault''"
    "js ''/'' @ template (s3_bucket (vault_config \<lparr> s3_endpoint := None \<rparr>)) = js ''/vault''"
    by (simp_all add: vault_config_def template_def js_def)
  have fp: "path_prefix (config ?c) = Some (js ''pics/'')" "path_prefix (config ?d) = Some (js ''pics/'')"
    by (simp_all add: S3Client_constructor_path_prefix vault_prefix no_endpoint_prefix)
  note ok = S3Client_operates_under_path_prefix
    [of vault_config ?P ?now ?file ?key "js ''2024''" 1000,
     unfolded Let_def vault_prefix cat, unfolded base(1), unfolded base(2)]
  note ko = S3Client_operates_under_path_prefix
    [of "vault_config \<lparr> s3_endpoint := None \<rparr>" ?P ?now "Buffer [1, 2, 3]" ?key "js ''2024''" 1000,
     unfolded Let_def no_endpoint_prefix cat, unfolded base(3)]
  have shape: "u = js ''https://s3.example.com/vault/pics/a%20b.jpg?'' @ q"
    if "encodeURIComponent (js ''pics/a b.jpg'') = Inr enc"
      and "u = js ''https://s3.example.com/vault'' @ js ''/'' @ replace_percent_2F enc @ js ''?'' @ q"
    for u enc q
    using that vault_key_encoded vault_key_replaced by (simp add: js_def)
  obtain u1 where u1: "S3Client_generatePresignedUrl ?P ?c ?now (js ''pics/a b.jpg'') (js ''PUT'') 3600 = Inr u1"
    using S3Client_generatePresignedUrl_succeeds [OF vault_key_encoded vault_host] by blast
  obtain u2 where u2: "S3Client_generatePresignedUrl ?P ?c ?now (js ''pics/a b.jpg'') (js ''GET'') 3600 = Inr u2"
    using S3Client_generatePresignedUrl_succeeds [OF vault_key_encoded vault_host] by blast
  obtain u3 where u3: "S3Client_generatePresignedUrl ?P ?c ?now (js ''pics/a b.jpg'') (js ''DELETE'') 3600 = Inr u3"
    using S3Client_generatePresignedUrl_succeeds [OF vault_key_encoded vault_host] by blast
  obtain hs where hs: "S3Client_generateAuthHeaders ?P ?c ?now (js ''GET'') (js ''/vault'')
      (listObjects_params (js ''pics/2024'') 1000) = Inr hs"
    using S3Client_generateAuthHeaders_succeeds [OF vault_host] by blast
  obtain r1 where r1: "S3Client_uploadFile ?P ?c ?now ?file ?key = Inr r1"
    using u1 by (simp add: S3Client_uploadFile_def fp template_def cat)
  obtain r2 where r2: "S3Client_downloadFile ?P ?c ?now ?key = Inr r2"
    using u2 by (simp add: S3Client_downloadFile_def fp template_def cat)
  obtain r3 where r3: "S3Client_deleteObject ?P ?c ?now ?key = Inr r3"
    using u3 by (simp add: S3Client_deleteObject_def fp template_def cat)
  obtain r4 where r4: "S3Client_listObjects ?P ?c ?now (js ''2024'') 1000 = Inr r4"
    using hs
    by (simp add: S3Client_listObjects_def fp template_Some cat S3Client_constructor_fields base Let_def)
  obtain e1 where e1: "S3Client_uploadFile ?P ?d ?now (Buffer [1, 2, 3]) ?key = Inl e1"
    using S3Client_generatePresignedUrl_no_host [OF no_endpoint_host, of ?now "js ''pics/a b.jpg''" "js ''PUT''" 3600]
    by (auto simp: S3Client_uploadFile_def fp template_def cat)
  obtain e2 where e2: "S3Client_downloadFile ?P ?d ?now ?key = Inl e2"
    using S3Client_generatePresignedUrl_no_host [OF no_endpoint_host, of ?now "js ''pics/a b.jpg''" "js ''GET''" 3600]
    by (auto simp: S3Client_downloadFile_def fp template_def cat)
  obtain e3 where e3: "S3Client_deleteObject ?P ?d ?now ?key = Inl e3"
    using S3Client_generatePresignedUrl_no_host [OF no_endpoint_host, of ?now "js ''pics/a b.jpg''" "js ''DELETE''" 3600]
    by (auto simp: S3Client_deleteObject_def fp template_def cat)
  obtain e4 where e4: "S3Client_listObjects ?P ?d ?now (js ''2024'') 1000 = Inl e4"
    using S3Client_generateAuthHeaders_no_host [OF no_endpoint_host, of ?now "js ''GET''" "js ''/vault''"
        "listObjects_params (js ''pics/2024'') 1000"]
    by (auto simp: S3Client_listObjects_def fp template_Some cat S3Client_constructor_fields base Let_def)
  note okU = ok [THEN conjunct2, THEN conjunct2, THEN conjunct1, rule_format, OF r1]
  note okD = ok [THEN conjunct2, THEN conjunct2, THEN conjunct2, THEN conjunct2, THEN conjunct1,
      rule_format, OF r2]
  note okX = ok [THEN conjunct2, THEN conjunct2, THEN conjunct2, THEN conjunct2, THEN conjunct2,
      THEN conjunct2, THEN conjunct1, rule_format, OF r3]
  note okL = ok [THEN conjunct2, THEN conjunct2, THEN conjunct2, THEN conjunct2, THEN conjunct2,
      THEN conjunct2, THEN conjunct2, THEN conjunct2, THEN conjunct1, rule_format, OF r4]
  note koU = ko [THEN conjunct2, THEN conjunct2, THEN conjunct2, THEN conjunct1, rule_format, OF e1]
  note koD = ko [THEN conjunct2, THEN conjunct2, THEN conjunct2, THEN conjunct2, THEN conjunct2,
      THEN conjunct1, rule_format, OF e2]
  note koX = ko [THEN conjunct2, THEN conjunct2, THEN conjunct2, THEN conjunct2, THEN conjunct2,
      THEN conjunct2, THEN conjunct2, THEN conjunct1, rule_format, OF e3]
  note koL = ko [THEN conjunct2, THEN conjunct2, THEN conjunct2, THEN conjunct2, THEN conjunct2,
      THEN conjunct2, THEN conjunct2, THEN conjunct2, THEN conjunct2, rule_format, OF e4]
  have A: "\<exists>r q. S3Client_uploadFile ?P ?c ?now ?file ?key = Inr r
        \<and> request_method r = js ''PUT'' \<and> request_body r = Some [1, 2, 3]
        \<and> request_url r = js ''https://s3.example.com/vault/pics/a%20b.jpg?'' @ q"
  proof -
    from okU obtain enc q where "encodeURIComponent (js ''pics/a b.jpg'') = Inr enc"
      "request_url r1 = js ''https://s3.example.com/vault'' @ js ''/'' @ replace_percent_2F enc @ js ''?'' @ q"
      by blast
    then have "request_url r1 = js ''https://s3.example.com/vault/pics/a%20b.jpg?'' @ q"
      by (rule shape)
    with okU r1 show ?thesis by auto
  qed
  have B: "\<exists>r q. S3Client_downloadFile ?P ?c ?now ?key = Inr r
        \<and> request_method r = js ''GET''
        \<and> request_url r = js ''https://s3.example.com/vault/pics/a%20b.jpg?'' @ q"
  proof -
    from okD obtain enc q where "encodeURIComponent (js ''pics/a b.jpg'') = Inr enc"
      "request_url r2 = js ''https://s3.example.com/vault'' @ js ''/'' @ replace_percent_2F enc @ js ''?'' @ q"
      by blast
    then have "request_url r2 = js ''https://s3.example.com/vault/pics/a%20b.jpg?'' @ q"
      by (rule shape)
    with okD r2 show ?thesis by auto
  qed
  have C: "\<exists>r q. S3Client_deleteObject ?P ?c ?now ?key = Inr r
        \<and> request_method r = js ''DELETE''
        \<and> request_url r = js ''https://s3.example.com/vault/pics/a%20b.jpg?'' @ q"
  proof -
    from okX obtain enc q where "encodeURIComponent (js ''pics/a b.jpg'') = Inr enc"
      "request_url r3 = js ''https://s3.example.com/vault'' @ js ''/'' @ replace_percent_2F enc @ js ''?'' @ q"
      by blast
    then have "request_url r3 = js ''https://s3.example.com/vault/pics/a%20b.jpg?'' @ q"
      by (rule shape)
    with okX r3 show ?thesis by auto
  qed
  have l: "js ''https://s3.example.com/vault'' @ js ''?list-type=2&prefix='' @ js ''pics%2F2024''
      @ js ''&max-keys='' @ js ''1000''
      = js ''https://s3.example.com/vault?list-type=2&prefix=pics%2F2024&max-keys=1000''"
    by (simp add: js_def)
  have D: "\<exists>r. S3Client_listObjects ?P ?c ?now (js ''2024'') 1000 = Inr r
        \<and> request_method r = js ''GET''
        \<and> request_url r =
            js ''https://s3.example.com/vault?list-type=2&prefix=pics%2F2024&max-keys=1000''"
    using okL r4 unfolding vault_list_prefix vault_max_keys l by blast
  have E: "\<exists>e e'. S3Client_uploadFile ?P ?d ?now (Buffer [1, 2, 3]) ?key = Inl e
        \<and> S3Client_generatePresignedUrl ?P ?d ?now (js ''pics/a b.jpg'') (js ''PUT'') 3600 = Inl e'"
    using koU e1 by blast
  have F: "\<exists>e e'. S3Client_downloadFile ?P ?d ?now ?key = Inl e
        \<and> S3Client_generatePresignedUrl ?P ?d ?now (js ''pics/a b.jpg'') (js ''GET'') 3600 = Inl e'"
    using koD e2 by blast
  have G: "\<exists>e e'. S3Client_deleteObject ?P ?d ?now ?key = Inl e
        \<and> S3Client_generatePresignedUrl ?P ?d ?now (js ''pics/a b.jpg'') (js ''DELETE'') 3600 = Inl e'"
    using koX e3 by blast
  have H: "\<exists>e e'. S3Client_listObjects ?P ?d ?now (js ''2024'') 1000 = Inl e
        \<and> S3Client_generateAuthHeaders ?P ?d ?now (js ''GET'') (js ''/vault'')
          (listObjects_params (js ''pics/2024'') 1000) = Inl e'"
    using koL e4 by blast
  show ?thesis
    using fp(1) A B C D E F G H by (intro conjI)
qed

section \<open>C5: the canonical URI\<close>

text \<open>
  C5 fails on the code.  \<open>encodeURIComponent\<close> leaves \<open>! * ' ( )\<close> as they are, so for
  the key \<open>a(1).jpg\<close> in the bucket \<open>photos\<close> the canonical URI that
  \<open>generatePresignedUrl\<close> signs is \<open>/photos/a(1).jpg\<close>, where the RFC 3986 rule of the
  claim gives \<open>/photos/a%281%29.jpg\<close>.
\<close>

theorem canonicalUri_leaves_parentheses:
  "canonicalUri_of \<lparr> s3_endpoint = None, s3_region = None, s3_bucket = Some (js ''photos''),
       s3_access_key = None, s3_secret_key = None, path_prefix = None, encryption_key = None \<rparr>
     (js ''a(1).jpg'') = Inr (js ''/photos/a(1).jpg'')
   \<and> canonical_uri_spec (js ''photos'') (js ''a(1).jpg'') = js ''/photos/a%281%29.jpg''"
  by (simp add: canonicalUri_of_def canonical_uri_spec_def template_def js_Cons js_Nil
      uriUnescaped_def is_ascii_alphanumeric_def rfc3986_unreserved_def TextEncoder_encode_def
      surrogate_defs utf8_encode_cp_def percent_encode_byte_def hex_digit_upper_def)

section \<open>C6: the canonical query string\<close>

lemma to_scalar_values_range:
  "cp \<in> set (to_scalar_values s) \<Longrightarrow>
     cp < 0x110000 \<and> (cp < 0x80 \<longrightarrow> (\<exists>c \<in> set s. cp = unat c))"
proof (induction s arbitrary: cp rule: to_scalar_values.induct)
  case 1
  then show ?case by simp
next
  case (2 c)
  have "unat c < 65536" using unsigned_less [of c, where ?'a = nat] by simp
  with 2 show ?case by (auto split: if_splits)
next
  case (3 c d cs)
  have c: "unat c < 65536" using unsigned_less [of c, where ?'a = nat] by simp
  have d: "unat d < 65536" using unsigned_less [of d, where ?'a = nat] by simp
  show ?case
  proof (cases "is_lead_surrogate c")
    case True
    note lead = this
    show ?thesis
    proof (cases "is_trail_surrogate d")
      case True
      have "unat c \<le> 0xDBFF" "unat d \<le> 0xDFFF"
        using lead True by (simp_all add: surrogate_defs word_le_nat_alt)
      then have "0x10000 + (unat c - 0xD800) * 0x400 + (unat d - 0xDC00) < 0x110000" by simp
      with 3 lead True show ?thesis by (auto split: if_splits)
    next
      case False
      with 3 lead show ?thesis by (auto split: if_splits)
    qed
  next
    case False
    with 3 c show ?thesis by (auto split: if_splits)
  qed
qed

lemma byte_high_neq:
  assumes "0x80 \<le> n" "n < 256"
  shows "(of_nat n :: byte) \<noteq> 0x20 \<and> (of_nat n :: byte) \<noteq> 0x2A \<and> (of_nat n :: byte) \<noteq> 0x7E"
proof -
  have "unat (of_nat n :: byte) = n"
    using assms(2) by (simp add: unsigned_of_nat take_bit_nat_eq_self)
  with assms(1) show ?thesis by auto
qed

lemma utf8_encode_cp_high:
  assumes "b \<in> set (utf8_encode_cp cp)" "0x80 \<le> cp" "cp < 0x110000"
  shows "\<exists>n. b = of_nat n \<and> 0x80 \<le> n \<and> n < 256"
proof -
  have m: "0x80 + x mod 0x40 < 256" "0x80 \<le> 0x80 + x mod 0x40" for x :: nat
    by simp_all
  consider "cp < 0x800" | "0x800 \<le> cp" "cp < 0x10000" | "0x10000 \<le> cp"
    by linarith
  then show ?thesis
  proof cases
    case 1
    then have "0xC0 + cp div 0x40 < 256" by simp
    with 1 assms show ?thesis
      by (auto simp: utf8_encode_cp_def intro: exI [of _ "0xC0 + cp div 0x40"] exI [of _ "0x80 + cp mod 0x40"])
  next
    case 2
    then have "0xE0 + cp div 0x1000 < 256" by simp
    with 2 assms show ?thesis
      by (auto simp: utf8_encode_cp_def intro: exI [of _ "0xE0 + cp div 0x1000"]
          exI [of _ "0x80 + cp div 0x40 mod 0x40"] exI [of _ "0x80 + cp mod 0x40"])
  next
    case 3
    with assms have "0xF0 + cp div 0x40000 < 256" by simp
    with 3 assms show ?thesis
      by (auto simp: utf8_encode_cp_def intro: exI [of _ "0xF0 + cp div 0x40000"]
          exI [of _ "0x80 + cp div 0x1000 mod 0x40"]
          exI [of _ "0x80 + cp div 0x40 mod 0x40"] exI [of _ "0x80 + cp mod 0x40"])
  qed
qed

lemma TextEncoder_encode_low:
  assumes "b \<in> set (TextEncoder_encode s)"
  shows "(\<exists>n. b = of_nat n \<and> 0x80 \<le> n \<and> n < 256) \<or> (\<exists>c \<in> set s. c < 0x80 \<and> b = ucast c)"
proof -
  from assms obtain cp where cp: "cp \<in> set (to_scalar_values s)" "b \<in> set (utf8_encode_cp cp)"
    by (auto simp: TextEncoder_encode_def)
  note r = to_scalar_values_range [OF cp(1)]
  show ?thesis
  proof (cases "cp < 0x80")
    case True
    with r obtain c where c: "c \<in> set s" "cp = unat c" by blast
    with True cp(2) have "b = ucast c" by (simp add: utf8_encode_cp_def)
    moreover from True c have "c < 0x80" by (simp add: word_less_nat_alt)
    ultimately show ?thesis using c by blast
  next
    case False
    with utf8_encode_cp_high [OF cp(2)] r show ?thesis by auto
  qed
qed

lemma ucast_low_eq:
  fixes c :: "16 word"
  assumes "c < 0x80" "ucast c = (of_nat k :: byte)" "k < 0x80"
  shows "c = of_nat k"
proof -
  have c: "unat c < 128" using assms(1) by (simp add: word_less_nat_alt)
  have 1: "unat (ucast c :: byte) = unat c"
    using c by (simp add: unsigned_ucast_eq take_bit_nat_eq_self)
  have 2: "unat (of_nat k :: byte) = k"
    using assms(3) by (simp add: unsigned_of_nat take_bit_nat_eq_self)
  have "unat (ucast c :: byte) = unat (of_nat k :: byte)"
    by (rule arg_cong [OF assms(2)])
  then have "unat c = k" by (simp only: 1 2)
  then have "of_nat (unat c) = (of_nat k :: 16 word)" by (rule arg_cong)
  then show ?thesis by simp
qed

lemma urlencoded_byte_plain:
  assumes "b \<noteq> 0x20" "b \<noteq> 0x2A" "b \<noteq> 0x7E"
  shows "urlencoded_byte b = (if rfc3986_unreserved b then [ucast b] else percent_encode_byte b)"
  using assms by (auto simp: urlencoded_byte_def rfc3986_unreserved_def)

lemma urlencoded_string_plain:
  assumes "query_plain s"
  shows "urlencoded_string s = percent_encode_spec s"
proof -
  have "urlencoded_byte b = (if rfc3986_unreserved b then [ucast b] else percent_encode_byte b)"
    if "b \<in> set (TextEncoder_encode s)" for b
  proof -
    from TextEncoder_encode_low [OF that]
    consider n where "b = of_nat n" "0x80 \<le> n" "n < 256"
      | c where "c \<in> set s" "c < 0x80" "b = ucast c"
      by blast
    then have "b \<noteq> 0x20 \<and> b \<noteq> 0x2A \<and> b \<noteq> 0x7E"
    proof cases
      case 1
      with byte_high_neq [of n] show ?thesis by simp
    next
      case 2
      with assms have c: "c \<noteq> of_nat 32" "c \<noteq> of_nat 42" "c \<noteq> of_nat 126"
        by (auto simp: query_plain_def list_all_iff)
      have "ucast c \<noteq> (of_nat 32 :: byte)" "ucast c \<noteq> (of_nat 42 :: byte)"
        "ucast c \<noteq> (of_nat 126 :: byte)"
        using ucast_low_eq [OF 2(2), of 32] ucast_low_eq [OF 2(2), of 42]
          ucast_low_eq [OF 2(2), of 126] c by auto
      with 2 show ?thesis by simp
    qed
    then show ?thesis by (simp add: urlencoded_byte_plain)
  qed
  then show ?thesis
    by (simp add: urlencoded_string_def percent_encode_spec_def cong: map_cong)
qed

lemma query_plain_append [simp]: "query_plain (a @ b) \<longleftrightarrow> query_plain a \<and> query_plain b"
  by (simp add: query_plain_def)

lemma query_plain_take: "query_plain s \<Longrightarrow> query_plain (take n s)"
  by (auto simp: query_plain_def list_all_iff dest: in_set_takeD)

lemma query_plain_filter: "query_plain s \<Longrightarrow> query_plain (filter p s)"
  by (auto simp: query_plain_def list_all_iff)

lemma query_plain_digit: "k < 10 \<Longrightarrow> query_plain [of_nat (0x30 + k)]"
proof -
  assume "k < 10"
  then have "k \<in> {0, 1, 2, 3, 4, 5, 6, 7, 8, 9}" by auto
  then show ?thesis by (auto simp: query_plain_def)
qed

lemma query_plain_Number_toString: "query_plain (Number_toString n)"
proof (induction n rule: Number_toString.induct)
  case (1 n)
  show ?case
  proof (cases "n < 10")
    case True
    then show ?thesis
      by (subst Number_toString.simps) (simp only: if_True query_plain_digit)
  next
    case False
    then have "n mod 10 < 10" by simp
    with 1 False show ?thesis
      by (subst Number_toString.simps) (simp only: if_False query_plain_append query_plain_digit simp_thms)
  qed
qed

lemma query_plain_dateString: "query_plain now \<Longrightarrow> query_plain (dateString_of now)"
  by (simp add: dateString_of_def query_plain_take query_plain_filter) (simp add: query_plain_def js_def)

lemma presigned_keys_sorted: "sorted_wrt (<) presigned_keys_spec"
  by (simp add: presigned_keys_spec_def js_Cons js_Nil)

lemma presignedQueryParams_keys:
  "map fst (presignedQueryParams cfg alg service dateString dateStamp expiresIn) = presigned_keys_spec"
  by (simp add: presignedQueryParams_def presigned_keys_spec_def)

lemma sort_key_sorted_id: "sorted (map f xs) \<Longrightarrow> sort_key f xs = xs"
  by (induction xs) (auto simp: insort_is_Cons)

lemma canonical_query_plain:
  assumes "list_all (\<lambda>(name, v). query_plain name \<and> query_plain v) params"
    and "sorted (map fst params)"
  shows "URLSearchParams_toString params = canonical_query_spec params"
proof -
  have "map (\<lambda>(name, v). urlencoded_string name @ js ''='' @ urlencoded_string v) params =
      map (\<lambda>(name, v). percent_encode_spec name @ js ''='' @ percent_encode_spec v) params"
    using assms(1) by (auto simp: list_all_iff urlencoded_string_plain)
  then show ?thesis
    unfolding URLSearchParams_toString_def canonical_query_spec_def sort_key_sorted_id [OF assms(2)]
    by (rule arg_cong)
qed

lemma presignedQueryParams_canonical:
  assumes "query_plain alg" "query_plain service" "query_plain (template (s3_access_key cfg))"
    "query_plain (template (s3_region cfg))" "query_plain now"
  shows "URLSearchParams_toString (presignedQueryParams cfg alg service (dateString_of now)
            (dateStamp_of (dateString_of now)) expiresIn) =
         canonical_query_spec (presignedQueryParams cfg alg service (dateString_of now)
            (dateStamp_of (dateString_of now)) expiresIn)"
proof (rule canonical_query_plain)
  have lit: "query_plain (js ''X-Amz-Algorithm'')" "query_plain (js ''X-Amz-Credential'')"
    "query_plain (js ''X-Amz-Date'')" "query_plain (js ''X-Amz-Expires'')"
    "query_plain (js ''X-Amz-SignedHeaders'')" "query_plain (js ''host'')" "query_plain (js ''/'')"
    "query_plain (js ''/aws4_request'')"
    by (simp_all add: query_plain_def js_def)
  show "list_all (\<lambda>(name, v). query_plain name \<and> query_plain v)
      (presignedQueryParams cfg alg service (dateString_of now) (dateStamp_of (dateString_of now)) expiresIn)"
    using assms
    by (simp add: presignedQueryParams_def lit query_plain_dateString query_plain_Number_toString
        dateStamp_of_def query_plain_take)
  show "sorted (map fst (presignedQueryParams cfg alg service (dateString_of now)
      (dateStamp_of (dateString_of now)) expiresIn))"
    unfolding presignedQueryParams_keys
    using presigned_keys_sorted by (rule strict_sorted_imp_sorted)
qed

lemma S3Client_generatePresignedUrl_eq:
  assumes "canonicalUri_of (config this) key = Inr canonicalUri"
    and "url_host P (template (s3_endpoint (config this))) = Inr host"
  shows "S3Client_generatePresignedUrl P this now key method expiresIn =
     Inr (let dateString = dateString_of now; dateStamp = dateStamp_of dateString;
              query = URLSearchParams_toString (presignedQueryParams (config this) (algorithm this)
                        (serviceName this) dateString dateStamp expiresIn)
          in template (s3_endpoint (config this)) @ canonicalUri @ js ''?'' @ query
               @ js ''&X-Amz-Signature=''
               @ S3Client_calculateSignature P this
                   (stringToSign_of P (algorithm this) dateString
                      (credentialScope_of (config this) (serviceName this) dateStamp)
                      (canonicalRequest_of method canonicalUri query (js ''host:'' @ host @ js ''\<newline>'')
                         (js ''host'') (js ''UNSIGNED-PAYLOAD'')))
                   dateStamp)"
  using assms by (simp add: S3Client_generatePresignedUrl_def Let_def)

lemma S3Client_generatePresignedUrl_parts:
  assumes "S3Client_generatePresignedUrl P this now key method expiresIn = Inr url"
  shows "\<exists>canonicalUri host. canonicalUri_of (config this) key = Inr canonicalUri \<and>
           url_host P (template (s3_endpoint (config this))) = Inr host"
  using assms by (auto simp: S3Client_generatePresignedUrl_def Let_def split: sum.splits)

lemma S3ClientSSE_generatePresignedUrl_eq:
  assumes "canonicalUri_of (config this) key = Inr canonicalUri"
    and "url_host P (template (s3_endpoint (config this))) = Inr host"
  shows "S3ClientSSE_generatePresignedUrl P this now key method expiresIn =
     Inr (let dateString = dateString_of now; dateStamp = dateStamp_of dateString;
              query = URLSearchParams_toString (presignedQueryParams (config this) (algorithm this)
                        (serviceName this) dateString dateStamp expiresIn)
          in template (s3_endpoint (config this)) @ canonicalUri @ js ''?'' @ query
               @ js ''&X-Amz-Signature=''
               @ S3ClientSSE_calculateSignature P this
                   (stringToSign_of P (algorithm this) dateString
                      (credentialScope_of (config this) (serviceName this) dateStamp)
                      (canonicalRequest_of method canonicalUri query (js ''host:'' @ host @ js ''\<newline>'')
                         (js ''host'') (js ''UNSIGNED-PAYLOAD'')))
                   dateStamp)"
  using assms by (simp add: S3ClientSSE_generatePresignedUrl_def Let_def)

lemma S3ClientSSE_generatePresignedUrl_parts:
  assumes "S3ClientSSE_generatePresignedUrl P this now key method expiresIn = Inr url"
  shows "\<exists>canonicalUri host. canonicalUri_of (config this) key = Inr canonicalUri \<and>
           url_host P (template (s3_endpoint (config this))) = Inr host"
  using assms by (auto simp: S3ClientSSE_generatePresignedUrl_def Let_def split: sum.splits)

lemma constructor_constants:
  "algorithm (S3Client_constructor cfg) = js ''AWS4-HMAC-SHA256''"
  "serviceName (S3Client_constructor cfg) = js ''s3''"
  "s3_access_key (config (S3Client_constructor cfg)) = s3_access_key cfg"
  "s3_region (config (S3Client_constructor cfg)) = s3_region cfg"
  "algorithm (S3ClientSSE_constructor P cfg) = js ''AWS4-HMAC-SHA256''"
  "serviceName (S3ClientSSE_constructor P cfg) = js ''s3''"
  "s3_access_key (config (S3ClientSSE_constructor P cfg)) = s3_access_key cfg"
  "s3_region (config (S3ClientSSE_constructor P cfg)) = Some (or_default (s3_region cfg) (js ''us-east-1''))"
  by (simp_all add: S3Client_constructor_def S3ClientSSE_constructor_def Let_def)

lemma query_plain_constants:
  "query_plain (js ''AWS4-HMAC-SHA256'')" "query_plain (js ''s3'')" "query_plain (js ''us-east-1'')"
  by (simp_all add: query_plain_def js_def)

lemma query_plain_or_default:
  "query_plain (template v) \<Longrightarrow> query_plain d \<Longrightarrow> query_plain (or_default v d)"
  by (simp add: or_default_def template_def split: option.splits)


lemma vault_dateString:
  "dateString_of (js ''2024-01-02T03:04:05.678Z'') = js ''20240102T030405Z''"
  "dateStamp_of (js ''20240102T030405Z'') = js ''20240102''"
  by (simp_all add: dateString_of_def dateStamp_of_def js_Cons js_Nil)

lemmas urlencoded_eval =
  urlencoded_string_def urlencoded_byte_def TextEncoder_encode_def js_Cons js_Nil
  utf8_encode_cp_def surrogate_defs is_ascii_alphanumeric_def percent_encode_byte_def
  hex_digit_upper_def

lemma vault_query:
  "URLSearchParams_toString (presignedQueryParams vault_config (js ''AWS4-HMAC-SHA256'') (js ''s3'')
      (js ''20240102T030405Z'') (js ''20240102'') 3600) =
   js ''X-Amz-Algorithm=AWS4-HMAC-SHA256&X-Amz-Credential=AKIDEXAMPLE%2F20240102%2Feu-west-1%2Fs3%2Faws4_request&X-Amz-Date=20240102T030405Z&X-Amz-Expires=3600&X-Amz-SignedHeaders=host''"
  by (simp add: URLSearchParams_toString_def presignedQueryParams_def vault_config_def template_def
      Number_toString.simps urlencoded_eval)

lemma spaced_query:
  "URLSearchParams_toString (presignedQueryParams (vault_config \<lparr> s3_access_key := Some (js ''my key'') \<rparr>)
      (js ''AWS4-HMAC-SHA256'') (js ''s3'') (js ''20240102T030405Z'') (js ''20240102'') 3600) =
   js ''X-Amz-Algorithm=AWS4-HMAC-SHA256&X-Amz-Credential=my+key%2F20240102%2Feu-west-1%2Fs3%2Faws4_request&X-Amz-Date=20240102T030405Z&X-Amz-Expires=3600&X-Amz-SignedHeaders=host''"
  by (simp add: URLSearchParams_toString_def presignedQueryParams_def vault_config_def template_def
      Number_toString.simps urlencoded_eval)

lemma spaced_query_spec:
  "canonical_query_spec (presignedQueryParams (vault_config \<lparr> s3_access_key := Some (js ''my key'') \<rparr>)
      (js ''AWS4-HMAC-SHA256'') (js ''s3'') (js ''20240102T030405Z'') (js ''20240102'') 3600) =
   js ''X-Amz-Algorithm=AWS4-HMAC-SHA256&X-Amz-Credential=my%20key%2F20240102%2Feu-west-1%2Fs3%2Faws4_request&X-Amz-Date=20240102T030405Z&X-Amz-Expires=3600&X-Amz-SignedHeaders=host''"
proof -
  have s: "sorted (map fst (presignedQueryParams (vault_config \<lparr> s3_access_key := Some (js ''my key'') \<rparr>)
      (js ''AWS4-HMAC-SHA256'') (js ''s3'') (js ''20240102T030405Z'') (js ''20240102'') 3600))"
    unfolding presignedQueryParams_keys
    using presigned_keys_sorted by (rule strict_sorted_imp_sorted)
  show ?thesis
    unfolding canonical_query_spec_def sort_key_sorted_id [OF s]
    by (simp add: presignedQueryParams_def vault_config_def template_def percent_encode_spec_def
      rfc3986_unreserved_def Number_toString.simps urlencoded_eval)
qed

lemma presignedQueryParams_constructor:
  "presignedQueryParams (config (S3Client_constructor cfg)) = presignedQueryParams cfg"
  by (rule ext)+ (simp add: presignedQueryParams_def constructor_constants)

lemma presignedQueryParams_vault_sse:
  "presignedQueryParams (config (S3ClientSSE_constructor P vault_config)) = presignedQueryParams vault_config"
  by (rule ext)+
    (simp add: presignedQueryParams_def constructor_constants vault_config_def or_default_def js_def)

lemma vault_canonicalUri:
  "canonicalUri_of (config (S3Client_constructor vault_config)) (js ''pics/a b.jpg'') =
     Inr (js ''/vault/pics/a%20b.jpg'')"
  "canonicalUri_of (config (S3ClientSSE_constructor P vault_config)) (js ''pics/a b.jpg'') =
     Inr (js ''/vault/pics/a%20b.jpg'')"
  by (simp_all add: canonicalUri_of_def vault_key_encoded vault_key_replaced S3Client_constructor_fields
      S3ClientSSE_constructor_def)
    (simp_all add: vault_config_def template_def js_def)

lemma vault_host_sse:
  "url_host stub_platform (template (s3_endpoint (config (S3ClientSSE_constructor P vault_config)))) =
     Inr (js ''s3.example.com'')"
  by (simp add: S3ClientSSE_constructor_def vault_config_def template_def or_default_def
      stub_platform_def js_Cons js_Nil)

lemma vault_endpoint:
  "template (s3_endpoint (config (S3Client_constructor vault_config))) = js ''https://s3.example.com''"
  "template (s3_endpoint (config (S3ClientSSE_constructor P vault_config))) = js ''https://s3.example.com''"
  by (simp_all add: S3Client_constructor_fields S3ClientSSE_constructor_def vault_config_def
      template_def or_default_def js_def)



section \<open>C8: configuration errors\<close>

lemma trim_eq_Nil: "trim s = [] \<longleftrightarrow> list_all is_js_whitespace s"
proof
  assume "trim s = []"
  then have a: "\<forall>x \<in> set (dropWhile is_js_whitespace s). is_js_whitespace x"
    by (simp add: trim_def dropWhile_eq_Nil_conv)
  have "dropWhile is_js_whitespace s = []"
  proof (rule ccontr)
    assume n: "dropWhile is_js_whitespace s \<noteq> []"
    then have "\<not> is_js_whitespace (hd (dropWhile is_js_whitespace s))"
      by (rule hd_dropWhile)
    moreover from n have "hd (dropWhile is_js_whitespace s) \<in> set (dropWhile is_js_whitespace s)"
      by (rule hd_in_set)
    ultimately show False using a by blast
  qed
  then show "list_all is_js_whitespace s"
    by (simp add: dropWhile_eq_Nil_conv list_all_iff)
next
  assume "list_all is_js_whitespace s"
  then have "dropWhile is_js_whitespace s = []"
    by (simp add: dropWhile_eq_Nil_conv list_all_iff)
  then show "trim s = []" by (simp only: trim_def dropWhile.simps rev.simps)
qed

lemma validateConfig_field:
  "(case v of None \<Rightarrow> False | Some s \<Rightarrow> s \<noteq> [] \<and> trim s \<noteq> []) \<longleftrightarrow> \<not> field_blank v"
  by (auto simp: field_blank_def trim_eq_Nil split: option.splits)

lemma validateConfig_iff:
  "validateConfig this \<longleftrightarrow>
     \<not> field_blank (s3_endpoint (config this)) \<and> \<not> field_blank (s3_region (config this)) \<and>
     \<not> field_blank (s3_bucket (config this)) \<and> \<not> field_blank (s3_access_key (config this)) \<and>
     \<not> field_blank (s3_secret_key (config this))"
  by (simp add: validateConfig_def validateConfig_field)

lemma S3Client_constructor_config:
  "config (S3Client_constructor cfg) =
     cfg \<lparr> path_prefix := Some (path_prefix_spec cfg), encryption_key := None \<rparr>"
  using S3Client_constructor_path_prefix [of cfg]
  by (simp add: S3Client_constructor_def Let_def)

lemma S3ClientSSE_constructor_config:
  "config (S3ClientSSE_constructor P cfg) =
     cfg \<lparr> s3_endpoint := Some (or_default (s3_endpoint cfg) (js ''https://s3.amazonaws.com'')),
           s3_region := Some (or_default (s3_region cfg) (js ''us-east-1'')),
           path_prefix := None \<rparr>"
  by (simp add: S3ClientSSE_constructor_def)

lemma S3Client_generatePresignedUrl_error:
  assumes "S3Client_generatePresignedUrl P this now key method expiresIn = Inl e"
  shows "err_name e = js ''Error'' \<and>
         (\<exists>m. err_message e = js ''Failed to generate presigned URL: '' @ m)"
  using assms
  by (auto simp: S3Client_generatePresignedUrl_def new_Error_def Let_def split: sum.splits)

lemma S3ClientSSE_generatePresignedUrl_error:
  assumes "S3ClientSSE_generatePresignedUrl P this now key method expiresIn = Inl e"
  shows "err_name e = js ''Error'' \<and>
         (\<exists>m. err_message e = js ''Failed to generate presigned URL: '' @ m)"
  using assms
  by (auto simp: S3ClientSSE_generatePresignedUrl_def new_Error_def Let_def split: sum.splits)

lemma S3ClientSSE_generatePresignedUrl_succeeds:
  assumes "encodeURIComponent key = Inr enc"
    and "url_host P (template (s3_endpoint (config this))) = Inr host"
  shows "\<exists>url. S3ClientSSE_generatePresignedUrl P this now key method expiresIn = Inr url"
  using assms
  by (simp add: S3ClientSSE_generatePresignedUrl_def canonicalUri_of_def Let_def)


lemma S3ClientSSE_generatePresignedUrl_bad_key:
  assumes "encodeURIComponent key = Inl e"
  shows "\<exists>e'. S3ClientSSE_generatePresignedUrl P this now key method expiresIn = Inl e'"
  using assms
  by (simp add: S3ClientSSE_generatePresignedUrl_def canonicalUri_of_def Let_def)

lemma empty_config_host:
  "url_host stub_platform (template (s3_endpoint (config (S3Client_constructor empty_config)))) =
     Inl (JsError (js ''TypeError'') (js ''Invalid URL''))"
  by (simp add: S3Client_constructor_fields empty_config_def template_def stub_platform_def
      js_Cons js_Nil)


lemma empty_query:
  "URLSearchParams_toString (presignedQueryParams
      (config (S3ClientSSE_constructor P empty_config)) (js ''AWS4-HMAC-SHA256'') (js ''s3'')
      (js ''20240102T030405Z'') (js ''20240102'') 3600) =
   js ''X-Amz-Algorithm=AWS4-HMAC-SHA256&X-Amz-Credential=undefined%2F20240102%2Fus-east-1%2Fs3%2Faws4_request&X-Amz-Date=20240102T030405Z&X-Amz-Expires=3600&X-Amz-SignedHeaders=host''"
  by (simp add: URLSearchParams_toString_def presignedQueryParams_def S3ClientSSE_constructor_config
      empty_config_def or_default_def template_def Number_toString.simps urlencoded_eval)


section \<open>C4: decryption with another passphrase\<close>

lemma decryptFile_rejected:
  assumes "deriveKey P this passphrase salt = Inr key"
    and "subtle_decrypt_aes_gcm P key iv (tagLength this * 8) encryptedData = Inl e"
    and "err_name e = js ''OperationError''"
  shows "decryptFile P this encryptedData salt iv passphrase =
     Inl (new_Error (js ''Decryption failed: Incorrect passphrase or corrupted data''))"
  using assms by (simp add: decryptFile_def)

lemma decryptString_rejected:
  assumes "base64ToArrayBuffer encryptedData = Inr encryptedBuffer"
    and "base64ToArrayBuffer salt = Inr saltBuffer"
    and "base64ToArrayBuffer iv = Inr ivBuffer"
    and "deriveKey P this passphrase saltBuffer = Inr key"
    and "subtle_decrypt_aes_gcm P key ivBuffer (tagLength this * 8) encryptedBuffer = Inl e"
    and "err_name e = js ''OperationError''"
  shows "decryptString P this encryptedData salt iv passphrase =
     Inl (new_Error (js ''Decryption failed: Incorrect passphrase or corrupted data''))"
  using assms by (simp add: decryptString_def)

lemma deriveKey_cong:
  "TextEncoder_encode k1 = TextEncoder_encode k2 \<Longrightarrow>
     deriveKey P this k1 salt = deriveKey P this k2 salt"
  by (simp add: deriveKey_def)

lemma decrypt_cong:
  assumes "TextEncoder_encode k1 = TextEncoder_encode k2"
  shows "decryptFile P this encryptedData salt iv k1 = decryptFile P this encryptedData salt iv k2"
    and "decryptString P this encryptedData64 salt64 iv64 k1 =
         decryptString P this encryptedData64 salt64 iv64 k2"
  by (simp_all add: decryptFile_def decryptString_def deriveKey_cong [OF assms] cong: sum.case_cong)


lemma length_stub_tag [simp]: "length (stub_tag key iv) = 16"
  by (simp add: stub_tag_def)

lemma stub_decrypt_sealed:
  "subtle_decrypt_aes_gcm stub_platform key iv n (data @ stub_tag key iv) = Inr data"
  by (simp add: stub_platform_def)

lemma stub_decrypt_other:
  "stub_tag key' iv \<noteq> stub_tag key iv \<Longrightarrow>
     subtle_decrypt_aes_gcm stub_platform key' iv n (data @ stub_tag key iv) =
       Inl (JsError (js ''OperationError'') [])"
  by (simp add: stub_platform_def)

lemma stub_deriveKey:
  "deriveKey stub_platform this passphrase salt = Inr (TextEncoder_encode passphrase @ salt)"
  by (simp add: deriveKey_def stub_platform_def)

lemma stub_encryptFile:
  "encryptFile stub_platform CryptoManager_constructor salt iv now file passphrase = Inr env \<Longrightarrow>
     ef_encryptedData env = file_bytes file @ stub_tag (TextEncoder_encode passphrase @ salt) iv
       \<and> ef_salt env = salt \<and> ef_iv env = iv"
proof -
  assume "encryptFile stub_platform CryptoManager_constructor salt iv now file passphrase = Inr env"
  from encryptFile_Inr [OF this] obtain key where
    k: "deriveKey stub_platform CryptoManager_constructor passphrase salt = Inr key"
    and e: "subtle_encrypt_aes_gcm stub_platform key iv (tagLength CryptoManager_constructor * 8)
        (file_bytes file) = Inr (ef_encryptedData env)"
    and r: "ef_salt env = salt" "ef_iv env = iv"
    by blast
  from k have "key = TextEncoder_encode passphrase @ salt" by (simp add: stub_deriveKey)
  with e have "ef_encryptedData env = file_bytes file @ stub_tag (TextEncoder_encode passphrase @ salt) iv"
    by (simp add: stub_platform_def)
  with r show ?thesis by simp
qed

lemma stub_encryptFile_ex:
  "\<exists>env. encryptFile stub_platform CryptoManager_constructor salt iv now file passphrase = Inr env"
  by (simp add: encryptFile_def stub_deriveKey Let_def) (simp add: stub_platform_def)

lemma encode_lone_surrogates:
  "TextEncoder_encode [0xD800] = [0xEF, 0xBF, 0xBD]" "TextEncoder_encode [0xDC00] = [0xEF, 0xBF, 0xBD]"
  by (simp_all add: TextEncoder_encode_def surrogate_defs utf8_encode_cp_def)

lemma encode_passphrases:
  "TextEncoder_encode (js ''right'') = [0x72, 0x69, 0x67, 0x68, 0x74]"
  "TextEncoder_encode (js ''wrong'') = [0x77, 0x72, 0x6F, 0x6E, 0x67]"
  "TextEncoder_encode (js ''secret'') = [0x73, 0x65, 0x63, 0x72, 0x65, 0x74]"
  by (simp_all add: TextEncoder_encode_def surrogate_defs utf8_encode_cp_def js_Cons js_Nil)

lemma decode_secret:
  "TextDecoder_decode [0x73, 0x65, 0x63, 0x72, 0x65, 0x74] = js ''secret''"
  by (simp add: TextDecoder_decode_def utf16_encode_cp_def js_Cons js_Nil)

lemma stub_decryptString_sealed:
  "decryptString stub_platform this
      (base64_encode (data @ stub_tag (TextEncoder_encode passphrase @ salt) iv))
      (base64_encode salt) (base64_encode iv) passphrase = Inr (TextDecoder_decode data)"
  by (simp add: decryptString_def stub_deriveKey stub_decrypt_sealed)

lemma stub_decryptFile_sealed:
  "decryptFile stub_platform this (data @ stub_tag (TextEncoder_encode passphrase @ salt) iv)
      salt iv passphrase = Inr data"
  by (simp add: decryptFile_def stub_deriveKey stub_decrypt_sealed)

lemma stub_tag_wrong:
  "stub_tag (TextEncoder_encode (js ''wrong'') @ replicate 16 1) (replicate 12 2) \<noteq>
   stub_tag (TextEncoder_encode (js ''right'') @ replicate 16 1) (replicate 12 2)"
  by (simp add: stub_tag_def encode_passphrases)



section \<open>C3: sealing and opening\<close>

lemma unat_byte_of_nat: "n < 256 \<Longrightarrow> unat (of_nat n :: byte) = n"
  by (simp add: unsigned_of_nat take_bit_nat_eq_self)

lemma utf8_decoder_start_ascii:
  "unat b \<le> 0x7F \<Longrightarrow> utf8_decoder cp 0 lo up (b # bs) = unat b # utf8_decoder 0 0 0x80 0xBF bs"
  by (simp add: Let_def)

lemma utf8_decoder_continue:
  assumes "needed \<noteq> 0" "lo \<le> unat b" "unat b \<le> up"
  shows "utf8_decoder cp needed lo up (b # bs) =
     (if needed = 1 then (cp * 0x40 + unat b mod 0x40) # utf8_decoder 0 0 0x80 0xBF bs
      else utf8_decoder (cp * 0x40 + unat b mod 0x40) (needed - 1) 0x80 0xBF bs)"
  using assms by (simp add: Let_def)

lemma mod_plus_low:
  fixes x :: nat
  assumes "m dvd a" "x < m"
  shows "(a + x) mod m = x"
  using assms by (metis mod_add_left_eq mod_less dvd_imp_mod_0 add_0)

lemma utf8_decoder_encode1:
  assumes "cp < 0x80"
  shows "utf8_decoder 0 0 0x80 0xBF (utf8_encode_cp cp @ rest) = cp # utf8_decoder 0 0 0x80 0xBF rest"
proof -
  have "unat (of_nat cp :: byte) = cp" using assms by (simp add: unat_byte_of_nat)
  with assms show ?thesis
    by (simp add: utf8_encode_cp_def utf8_decoder_start_ascii)
qed

lemma utf8_decoder_encode2:
  assumes "0x80 \<le> cp" "cp < 0x800"
  shows "utf8_decoder 0 0 0x80 0xBF (utf8_encode_cp cp @ rest) = cp # utf8_decoder 0 0 0x80 0xBF rest"
proof -
  define b1 where "b1 = 0xC0 + cp div 0x40"
  define b2 where "b2 = 0x80 + cp mod 0x40"
  have r1: "0xC2 \<le> b1" "b1 \<le> 0xDF" using assms by (simp_all add: b1_def)
  have r2: "0x80 \<le> b2" "b2 \<le> 0xBF" by (simp_all add: b2_def)
  have u1: "unat (of_nat b1 :: byte) = b1" using r1 by (simp add: unat_byte_of_nat)
  have u2: "unat (of_nat b2 :: byte) = b2" using r2 by (simp add: unat_byte_of_nat)
  have enc: "utf8_encode_cp cp = [of_nat b1, of_nat b2]"
    using assms by (simp add: utf8_encode_cp_def b1_def b2_def)
  have s1: "utf8_decoder 0 0 0x80 0xBF (of_nat b1 # of_nat b2 # rest) =
      utf8_decoder (b1 mod 0x20) 1 0x80 0xBF (of_nat b2 # rest)"
    using r1 by (simp add: Let_def u1)
  have s2: "utf8_decoder (b1 mod 0x20) 1 0x80 0xBF (of_nat b2 # rest) =
      ((b1 mod 0x20) * 0x40 + b2 mod 0x40) # utf8_decoder 0 0 0x80 0xBF rest"
    using r2 by (subst utf8_decoder_continue) (simp_all add: u2)
  have "cp div 0x40 < 0x20" using assms by simp
  then have "b1 mod 0x20 = cp div 0x40"
    unfolding b1_def by (intro mod_plus_low) simp_all
  moreover have "b2 mod 0x40 = cp mod 0x40"
    unfolding b2_def by (intro mod_plus_low) simp_all
  ultimately have v: "(b1 mod 0x20) * 0x40 + b2 mod 0x40 = cp"
    by simp
  show ?thesis by (simp only: enc append.simps s1 s2 v)
qed

lemma join3:
  fixes cp :: nat
  shows "(cp div 0x1000 * 0x40 + cp div 0x40 mod 0x40) * 0x40 + cp mod 0x40 = cp"
proof -
  have "cp div 0x1000 = cp div 0x40 div 0x40" by (simp add: div_mult2_eq)
  then have "cp div 0x1000 * 0x40 + cp div 0x40 mod 0x40 = cp div 0x40" by simp
  then show ?thesis by simp
qed

lemma join4:
  fixes cp :: nat
  shows "((cp div 0x40000 * 0x40 + cp div 0x1000 mod 0x40) * 0x40 + cp div 0x40 mod 0x40) * 0x40
           + cp mod 0x40 = cp"
proof -
  have "cp div 0x40000 = cp div 0x1000 div 0x40" by (simp add: div_mult2_eq)
  then have "cp div 0x40000 * 0x40 + cp div 0x1000 mod 0x40 = cp div 0x1000" by simp
  then show ?thesis by (simp only: join3)
qed

lemma utf8_decoder_encode3:
  assumes "0x800 \<le> cp" "cp < 0x10000" "\<not> (0xD800 \<le> cp \<and> cp \<le> 0xDFFF)"
  shows "utf8_decoder 0 0 0x80 0xBF (utf8_encode_cp cp @ rest) = cp # utf8_decoder 0 0 0x80 0xBF rest"
proof -
  define b1 where "b1 = 0xE0 + cp div 0x1000"
  define b2 where "b2 = 0x80 + cp div 0x40 mod 0x40"
  define b3 where "b3 = 0x80 + cp mod 0x40"
  define lo :: nat where "lo = (if b1 = 0xE0 then 0xA0 else 0x80)"
  define up :: nat where "up = (if b1 = 0xED then 0x9F else 0xBF)"
  have r1: "0xE0 \<le> b1" "b1 \<le> 0xEF" using assms by (simp_all add: b1_def)
  have r2: "0x80 \<le> b2" "b2 \<le> 0xBF" by (simp_all add: b2_def)
  have r3: "0x80 \<le> b3" "b3 \<le> 0xBF" by (simp_all add: b3_def)
  have u1: "unat (of_nat b1 :: byte) = b1" using r1 by (simp add: unat_byte_of_nat)
  have u2: "unat (of_nat b2 :: byte) = b2" using r2 by (simp add: unat_byte_of_nat)
  have u3: "unat (of_nat b3 :: byte) = b3" using r3 by (simp add: unat_byte_of_nat)
  have enc: "utf8_encode_cp cp = [of_nat b1, of_nat b2, of_nat b3]"
    using assms by (simp add: utf8_encode_cp_def b1_def b2_def b3_def)
  have lo: "lo \<le> b2"
  proof (cases "b1 = 0xE0")
    case True
    then have "cp div 0x1000 = 0" by (simp add: b1_def)
    then have "cp < 0x1000" by simp
    then have q: "cp div 0x40 < 0x40" by simp
    from assms(1) have "0x20 \<le> cp div 0x40" by simp
    with q True show ?thesis by (simp add: lo_def b2_def)
  next
    case False
    with r2 show ?thesis by (simp add: lo_def)
  qed
  have up: "b2 \<le> up"
  proof (cases "b1 = 0xED")
    case True
    then have d: "cp div 0x1000 = 0xD" by (simp add: b1_def)
    then have "0xD000 \<le> cp" "cp < 0xE000" by simp_all
    with assms(3) have "cp < 0xD800" by simp
    then have q1: "cp div 0x40 < 0x360" by simp
    from \<open>0xD000 \<le> cp\<close> have q2: "0x340 \<le> cp div 0x40" by simp
    define y where "y = cp div 0x40 - 0x340"
    have y: "cp div 0x40 = 0x340 + y" "y < 0x20" using q1 q2 by (simp_all add: y_def)
    have "(0x340 + y) mod 0x40 = y" using y(2) by (intro mod_plus_low) simp_all
    with y True show ?thesis by (simp add: up_def b2_def)
  next
    case False
    with r2 show ?thesis by (simp add: up_def)
  qed
  have s1: "utf8_decoder 0 0 0x80 0xBF (of_nat b1 # of_nat b2 # of_nat b3 # rest) =
      utf8_decoder (b1 mod 0x10) 2 lo up (of_nat b2 # of_nat b3 # rest)"
    using r1 by (simp add: Let_def u1 lo_def up_def)
  have s2: "utf8_decoder (b1 mod 0x10) 2 lo up (of_nat b2 # of_nat b3 # rest) =
      utf8_decoder ((b1 mod 0x10) * 0x40 + b2 mod 0x40) 1 0x80 0xBF (of_nat b3 # rest)"
    using lo up by (subst utf8_decoder_continue) (simp_all add: u2)
  have s3: "utf8_decoder ((b1 mod 0x10) * 0x40 + b2 mod 0x40) 1 0x80 0xBF (of_nat b3 # rest) =
      (((b1 mod 0x10) * 0x40 + b2 mod 0x40) * 0x40 + b3 mod 0x40) # utf8_decoder 0 0 0x80 0xBF rest"
    using r3 by (subst utf8_decoder_continue) (simp_all add: u3)
  have "cp div 0x1000 < 0x10" using assms by simp
  then have m1: "b1 mod 0x10 = cp div 0x1000"
    unfolding b1_def by (intro mod_plus_low) simp_all
  have m2: "b2 mod 0x40 = cp div 0x40 mod 0x40"
    unfolding b2_def by (intro mod_plus_low) simp_all
  have m3: "b3 mod 0x40 = cp mod 0x40"
    unfolding b3_def by (intro mod_plus_low) simp_all
  have v: "((b1 mod 0x10) * 0x40 + b2 mod 0x40) * 0x40 + b3 mod 0x40 = cp"
    unfolding m1 m2 m3 by (rule join3)
  show ?thesis by (simp only: enc append.simps s1 s2 s3 v)
qed

lemma utf8_decoder_encode4:
  assumes "0x10000 \<le> cp" "cp < 0x110000"
  shows "utf8_decoder 0 0 0x80 0xBF (utf8_encode_cp cp @ rest) = cp # utf8_decoder 0 0 0x80 0xBF rest"
proof -
  define b1 where "b1 = 0xF0 + cp div 0x40000"
  define b2 where "b2 = 0x80 + cp div 0x1000 mod 0x40"
  define b3 where "b3 = 0x80 + cp div 0x40 mod 0x40"
  define b4 where "b4 = 0x80 + cp mod 0x40"
  define lo :: nat where "lo = (if b1 = 0xF0 then 0x90 else 0x80)"
  define up :: nat where "up = (if b1 = 0xF4 then 0x8F else 0xBF)"
  have r1: "0xF0 \<le> b1" "b1 \<le> 0xF4" using assms by (simp_all add: b1_def)
  have r2: "0x80 \<le> b2" "b2 \<le> 0xBF" by (simp_all add: b2_def)
  have r3: "0x80 \<le> b3" "b3 \<le> 0xBF" by (simp_all add: b3_def)
  have r4: "0x80 \<le> b4" "b4 \<le> 0xBF" by (simp_all add: b4_def)
  have u1: "unat (of_nat b1 :: byte) = b1" using r1 by (simp add: unat_byte_of_nat)
  have u2: "unat (of_nat b2 :: byte) = b2" using r2 by (simp add: unat_byte_of_nat)
  have u3: "unat (of_nat b3 :: byte) = b3" using r3 by (simp add: unat_byte_of_nat)
  have u4: "unat (of_nat b4 :: byte) = b4" using r4 by (simp add: unat_byte_of_nat)
  have enc: "utf8_encode_cp cp = [of_nat b1, of_nat b2, of_nat b3, of_nat b4]"
    using assms by (simp add: utf8_encode_cp_def b1_def b2_def b3_def b4_def)
  have lo: "lo \<le> b2"
  proof (cases "b1 = 0xF0")
    case True
    then have "cp div 0x40000 = 0" by (simp add: b1_def)
    then have "cp < 0x40000" by simp
    then have q: "cp div 0x1000 < 0x40" by simp
    from assms(1) have "0x10 \<le> cp div 0x1000" by simp
    with q True show ?thesis by (simp add: lo_def b2_def)
  next
    case False
    with r2 show ?thesis by (simp add: lo_def)
  qed
  have up: "b2 \<le> up"
  proof (cases "b1 = 0xF4")
    case True
    then have d: "cp div 0x40000 = 4" by (simp add: b1_def)
    then have "0x100000 \<le> cp" by simp
    then have q2: "0x100 \<le> cp div 0x1000" by simp
    from assms(2) have q1: "cp div 0x1000 < 0x110" by simp
    define y where "y = cp div 0x1000 - 0x100"
    have y: "cp div 0x1000 = 0x100 + y" "y < 0x10" using q1 q2 by (simp_all add: y_def)
    have "(0x100 + y) mod 0x40 = y" using y(2) by (intro mod_plus_low) simp_all
    with y True show ?thesis by (simp add: up_def b2_def)
  next
    case False
    with r2 show ?thesis by (simp add: up_def)
  qed
  have s1: "utf8_decoder 0 0 0x80 0xBF (of_nat b1 # of_nat b2 # of_nat b3 # of_nat b4 # rest) =
      utf8_decoder (b1 mod 0x08) 3 lo up (of_nat b2 # of_nat b3 # of_nat b4 # rest)"
    using r1 by (simp add: Let_def u1 lo_def up_def)
  have s2: "utf8_decoder (b1 mod 0x08) 3 lo up (of_nat b2 # of_nat b3 # of_nat b4 # rest) =
      utf8_decoder ((b1 mod 0x08) * 0x40 + b2 mod 0x40) 2 0x80 0xBF (of_nat b3 # of_nat b4 # rest)"
    using lo up by (subst utf8_decoder_continue) (simp_all add: u2)
  have s3: "utf8_decoder ((b1 mod 0x08) * 0x40 + b2 mod 0x40) 2 0x80 0xBF (of_nat b3 # of_nat b4 # rest) =
      utf8_decoder (((b1 mod 0x08) * 0x40 + b2 mod 0x40) * 0x40 + b3 mod 0x40) 1 0x80 0xBF
        (of_nat b4 # rest)"
    using r3 by (subst utf8_decoder_continue) (simp_all add: u3)
  have s4: "utf8_decoder (((b1 mod 0x08) * 0x40 + b2 mod 0x40) * 0x40 + b3 mod 0x40) 1 0x80 0xBF
        (of_nat b4 # rest) =
      ((((b1 mod 0x08) * 0x40 + b2 mod 0x40) * 0x40 + b3 mod 0x40) * 0x40 + b4 mod 0x40)
        # utf8_decoder 0 0 0x80 0xBF rest"
    using r4 by (subst utf8_decoder_continue) (simp_all add: u4)
  have "cp div 0x40000 < 0x08" using assms by simp
  then have m1: "b1 mod 0x08 = cp div 0x40000"
    unfolding b1_def by (intro mod_plus_low) simp_all
  have m2: "b2 mod 0x40 = cp div 0x1000 mod 0x40"
    unfolding b2_def by (intro mod_plus_low) simp_all
  have m3: "b3 mod 0x40 = cp div 0x40 mod 0x40"
    unfolding b3_def by (intro mod_plus_low) simp_all
  have m4: "b4 mod 0x40 = cp mod 0x40"
    unfolding b4_def by (intro mod_plus_low) simp_all
  have v: "(((b1 mod 0x08) * 0x40 + b2 mod 0x40) * 0x40 + b3 mod 0x40) * 0x40 + b4 mod 0x40 = cp"
    unfolding m1 m2 m3 m4 by (rule join4)
  show ?thesis by (simp only: enc append.simps s1 s2 s3 s4 v)
qed

lemma utf8_decoder_encode:
  assumes "scalar_value cp"
  shows "utf8_decoder 0 0 0x80 0xBF (utf8_encode_cp cp @ rest) = cp # utf8_decoder 0 0 0x80 0xBF rest"
proof -
  consider "cp < 0x80" | "0x80 \<le> cp" "cp < 0x800" | "0x800 \<le> cp" "cp < 0x10000" | "0x10000 \<le> cp"
    by linarith
  then show ?thesis
  proof cases
    case 1 then show ?thesis by (rule utf8_decoder_encode1)
  next
    case 2 then show ?thesis by (rule utf8_decoder_encode2)
  next
    case 3 with assms show ?thesis by (intro utf8_decoder_encode3) (simp_all add: scalar_value_def)
  next
    case 4 with assms show ?thesis by (intro utf8_decoder_encode4) (simp_all add: scalar_value_def)
  qed
qed

lemma utf8_decoder_concat:
  assumes "list_all scalar_value cps"
  shows "utf8_decoder 0 0 0x80 0xBF (concat (map utf8_encode_cp cps)) = cps"
  using assms by (induction cps) (simp_all add: utf8_decoder_encode)

lemma unat16_lt: "unat (c :: 16 word) < 0x10000"
  using unsigned_less [of c, where ?'a = nat] by simp

lemma scalar_value_unit:
  "\<not> is_lead_surrogate c \<Longrightarrow> \<not> is_trail_surrogate c \<Longrightarrow> scalar_value (unat c)"
  using unat16_lt [of c]
  by (auto simp: scalar_value_def surrogate_defs word_le_nat_alt)

lemma scalar_value_pair:
  assumes "is_lead_surrogate c" "is_trail_surrogate d"
  shows "scalar_value (0x10000 + (unat c - 0xD800) * 0x400 + (unat d - 0xDC00))"
proof -
  have "unat c \<le> 0xDBFF" "unat d \<le> 0xDFFF"
    using assms by (simp_all add: surrogate_defs word_le_nat_alt)
  then have "0x10000 + (unat c - 0xD800) * 0x400 + (unat d - 0xDC00) < 0x110000" by simp
  then show ?thesis by (simp add: scalar_value_def)
qed

lemma scalar_value_replacement: "scalar_value 0xFFFD"
  by (simp add: scalar_value_def)

lemma to_scalar_values_scalar: "list_all scalar_value (to_scalar_values s)"
  by (induction s rule: to_scalar_values.induct)
    (simp_all add: scalar_value_unit scalar_value_pair scalar_value_replacement)

lemma utf8_decoder_TextEncoder:
  "utf8_decoder 0 0 0x80 0xBF (TextEncoder_encode s) = to_scalar_values s"
  unfolding TextEncoder_encode_def by (rule utf8_decoder_concat [OF to_scalar_values_scalar])

lemma utf16_encode_unit: "utf16_encode_cp (unat (c :: 16 word)) = [c]"
  using unat16_lt [of c] by (simp add: utf16_encode_cp_def)

lemma utf16_encode_pair:
  assumes "is_lead_surrogate c" "is_trail_surrogate d"
  shows "utf16_encode_cp (0x10000 + (unat c - 0xD800) * 0x400 + (unat d - 0xDC00)) = [c, d]"
proof -
  define x where "x = unat c - 0xD800"
  define y where "y = unat d - 0xDC00"
  have c: "0xD800 \<le> unat c" and d: "0xDC00 \<le> unat d" "unat d \<le> 0xDFFF"
    using assms by (simp_all add: surrogate_defs word_le_nat_alt)
  have y: "y < 0x400" using d by (simp add: y_def)
  have dv: "(x * 0x400 + y) div 0x400 = x" using y by simp
  have md: "(x * 0x400 + y) mod 0x400 = y" using y by simp
  have a: "0xD800 + x = unat c" using c by (simp add: x_def)
  have b: "0xDC00 + y = unat d" using d by (simp add: y_def)
  have "utf16_encode_cp (0x10000 + x * 0x400 + y) =
      [of_nat (0xD800 + (x * 0x400 + y) div 0x400), of_nat (0xDC00 + (x * 0x400 + y) mod 0x400)]"
    by (simp add: utf16_encode_cp_def)
  also have "\<dots> = [of_nat (unat c), of_nat (unat d)]"
    by (simp only: dv md a b)
  finally show ?thesis by (simp add: x_def y_def)
qed

lemma utf16_of_scalar_values:
  "well_formed_utf16 s \<Longrightarrow> concat (map utf16_encode_cp (to_scalar_values s)) = s"
  by (induction s rule: to_scalar_values.induct)
    (auto simp: utf16_encode_unit utf16_encode_pair split: if_splits)

lemma to_scalar_values_head:
  assumes "to_scalar_values s = v # vs"
  shows "v = 0xFEFF \<longleftrightarrow> take 1 s = [0xFEFF]"
proof -
  have u: "unat c = 0xFEFF \<longleftrightarrow> c = 0xFEFF" for c :: "16 word"
    using word_unat_eq_iff [of c "0xFEFF"] by simp
  have nl: "\<not> is_lead_surrogate 0xFEFF" "\<not> is_trail_surrogate 0xFEFF"
    by (simp_all add: surrogate_defs)
  show ?thesis
  proof (cases s rule: to_scalar_values.cases)
    case 1
    with assms show ?thesis by simp
  next
    case (2 c)
    with assms nl show ?thesis by (auto simp: u split: if_splits)
  next
    case (3 c d cs)
    with assms nl show ?thesis by (auto simp: u split: if_splits)
  qed
qed

lemma TextDecoder_TextEncoder:
  assumes "plain_text s"
  shows "TextDecoder_decode (TextEncoder_encode s) = s"
proof (cases "to_scalar_values s")
  case Nil
  with assms utf16_of_scalar_values [of s] show ?thesis
    by (simp add: TextDecoder_decode_def utf8_decoder_TextEncoder plain_text_def)
next
  case (Cons v vs)
  with to_scalar_values_head [OF Cons] assms have "v \<noteq> 0xFEFF"
    by (simp add: plain_text_def)
  with Cons assms utf16_of_scalar_values [of s] show ?thesis
    by (simp add: TextDecoder_decode_def utf8_decoder_TextEncoder plain_text_def)
qed

lemma decode_encode_any:
  "TextDecoder_decode (TextEncoder_encode s) =
     concat (map utf16_encode_cp
       (case to_scalar_values s of [] \<Rightarrow> [] | c # rest \<Rightarrow> if c = 0xFEFF then rest else c # rest))"
  by (simp add: TextDecoder_decode_def utf8_decoder_TextEncoder)

lemma decryptString_sealed:
  assumes "aead_correct P"
    and "encryptString P this salt iv text passphrase = Inr env"
  shows "decryptString P this (es_encryptedData env) (es_salt env) (es_iv env) passphrase =
     Inr (TextDecoder_decode (TextEncoder_encode text))"
proof -
  from assms(2) obtain key ct where
    k: "deriveKey P this passphrase salt = Inr key"
    and e: "subtle_encrypt_aes_gcm P key iv (tagLength this * 8) (TextEncoder_encode text) = Inr ct"
    and env: "env = \<lparr> es_encryptedData = base64_encode ct, es_salt = base64_encode salt,
                es_iv = base64_encode iv \<rparr>"
    unfolding encryptString_Inr by blast
  from assms(1) e have "subtle_decrypt_aes_gcm P key iv (tagLength this * 8) ct
      = Inr (TextEncoder_encode text)"
    unfolding aead_correct_def by blast
  with k show ?thesis by (simp add: decryptString_def env)
qed

lemma decryptFile_sealed:
  assumes "aead_correct P"
    and "encryptFile P this salt iv now file passphrase = Inr sealed"
  shows "decryptFile P this (ef_encryptedData sealed) (ef_salt sealed) (ef_iv sealed) passphrase =
     Inr (file_bytes file)"
proof -
  from encryptFile_Inr [OF assms(2)] obtain key where
    k: "deriveKey P this passphrase salt = Inr key"
    and e: "subtle_encrypt_aes_gcm P key iv (tagLength this * 8) (file_bytes file)
        = Inr (ef_encryptedData sealed)"
    and r: "ef_salt sealed = salt" "ef_iv sealed = iv"
    by blast
  from assms(1) e have "subtle_decrypt_aes_gcm P key iv (tagLength this * 8) (ef_encryptedData sealed)
      = Inr (file_bytes file)"
    unfolding aead_correct_def by blast
  with k r show ?thesis by (simp add: decryptFile_def)
qed

lemma encryptString_succeeds:
  assumes "deriveKey P this passphrase salt = Inr key"
    and "subtle_encrypt_aes_gcm P key iv (tagLength this * 8) (TextEncoder_encode text) = Inr ct"
  shows "\<exists>env. encryptString P this salt iv text passphrase = Inr env"
  unfolding encryptString_Inr using assms by blast

lemma encryptFile_succeeds:
  assumes "deriveKey P this passphrase salt = Inr key"
    and "subtle_encrypt_aes_gcm P key iv (tagLength this * 8) (file_bytes file) = Inr ct"
  shows "\<exists>sealed. encryptFile P this salt iv now file passphrase = Inr sealed"
  using assms by (simp add: encryptFile_def Let_def)

text \<open>
  C3, as it holds.  Let the platform's AES-GCM decrypt what it encrypted.  Whenever key
  derivation and encryption succeed, \<open>encryptString\<close> and \<open>encryptFile\<close> return an
  envelope.  \<open>decryptFile\<close> of the envelope of \<open>encryptFile\<close>, with the same passphrase,
  returns the bytes that were sealed.  \<open>decryptString\<close> of the envelope of
  \<open>encryptString\<close>, with the same passphrase, returns the text after a passage through
  UTF-8: the text itself when it is well-formed UTF-16 and does not start with U+FEFF.
\<close>

theorem seal_open_round_trip:
  assumes "aead_correct P"
  shows
    "(\<forall>key ct. deriveKey P this passphrase salt = Inr key \<longrightarrow>
        subtle_encrypt_aes_gcm P key iv (tagLength this * 8) (TextEncoder_encode text) = Inr ct \<longrightarrow>
        (\<exists>env. encryptString P this salt iv text passphrase = Inr env))
     \<and> (\<forall>env. encryptString P this salt iv text passphrase = Inr env \<longrightarrow>
        decryptString P this (es_encryptedData env) (es_salt env) (es_iv env) passphrase =
          Inr (TextDecoder_decode (TextEncoder_encode text)) \<and>
        (plain_text text \<longrightarrow>
           decryptString P this (es_encryptedData env) (es_salt env) (es_iv env) passphrase =
             Inr text))
     \<and> (\<forall>key ct. deriveKey P this passphrase salt = Inr key \<longrightarrow>
        subtle_encrypt_aes_gcm P key iv (tagLength this * 8) (file_bytes file) = Inr ct \<longrightarrow>
        (\<exists>sealed. encryptFile P this salt iv now file passphrase = Inr sealed))
     \<and> (\<forall>sealed. encryptFile P this salt iv now file passphrase = Inr sealed \<longrightarrow>
        decryptFile P this (ef_encryptedData sealed) (ef_salt sealed) (ef_iv sealed) passphrase =
          Inr (file_bytes file))"
proof (intro conjI allI impI)
  fix key ct
  assume "deriveKey P this passphrase salt = Inr key"
    and "subtle_encrypt_aes_gcm P key iv (tagLength this * 8) (TextEncoder_encode text) = Inr ct"
  then show "\<exists>env. encryptString P this salt iv text passphrase = Inr env"
    by (rule encryptString_succeeds)
next
  fix env
  assume "encryptString P this salt iv text passphrase = Inr env"
  from decryptString_sealed [OF assms this]
  show "decryptString P this (es_encryptedData env) (es_salt env) (es_iv env) passphrase =
      Inr (TextDecoder_decode (TextEncoder_encode text))" .
next
  fix env
  assume e: "encryptString P this salt iv text passphrase = Inr env" and "plain_text text"
  with decryptString_sealed [OF assms e]
  show "decryptString P this (es_encryptedData env) (es_salt env) (es_iv env) passphrase = Inr text"
    by (simp add: TextDecoder_TextEncoder)
next
  fix key ct
  assume "deriveKey P this passphrase salt = Inr key"
    and "subtle_encrypt_aes_gcm P key iv (tagLength this * 8) (file_bytes file) = Inr ct"
  then show "\<exists>sealed. encryptFile P this salt iv now file passphrase = Inr sealed"
    by (rule encryptFile_succeeds)
next
  fix sealed
  assume "encryptFile P this salt iv now file passphrase = Inr sealed"
  from decryptFile_sealed [OF assms this]
  show "decryptFile P this (ef_encryptedData sealed) (ef_salt sealed) (ef_iv sealed) passphrase =
      Inr (file_bytes file)" .
qed

lemma stub_aead_correct: "aead_correct stub_platform"
  by (auto simp: aead_correct_def stub_platform_def)

lemma plain_text_secret: "plain_text (js ''secret'')"
  by (simp add: plain_text_def surrogate_defs js_Cons js_Nil)

theorem seal_open_round_trip_witness:
  "(\<exists>env. encryptString stub_platform CryptoManager_constructor (replicate 16 1) (replicate 12 2)
        (js ''secret'') (js ''right'') = Inr env
      \<and> decryptString stub_platform CryptoManager_constructor (es_encryptedData env) (es_salt env)
          (es_iv env) (js ''right'') = Inr (js ''secret''))
   \<and> (\<exists>sealed. encryptFile stub_platform CryptoManager_constructor (replicate 16 1) (replicate 12 2) 0
        (FileObject (js ''a.jpg'') (js ''image/jpeg'') 0 [1, 2, 3]) (js ''right'') = Inr sealed
      \<and> decryptFile stub_platform CryptoManager_constructor (ef_encryptedData sealed) (ef_salt sealed)
          (ef_iv sealed) (js ''right'') = Inr [1, 2, 3])"
proof -
  let ?P = stub_platform
  let ?cm = CryptoManager_constructor
  let ?salt = "replicate 16 1 :: byte list"
  let ?iv = "replicate 12 2 :: byte list"
  let ?f = "FileObject (js ''a.jpg'') (js ''image/jpeg'') 0 [1, 2, 3]"
  note rt = seal_open_round_trip [OF stub_aead_correct,
      of ?cm "js ''right''" ?salt ?iv "js ''secret''" ?f 0]
  have enc: "subtle_encrypt_aes_gcm ?P key ?iv n data = Inr (data @ stub_tag key ?iv)" for key n data
    by (simp add: stub_platform_def)
  obtain env where env: "encryptString ?P ?cm ?salt ?iv (js ''secret'') (js ''right'') = Inr env"
    using rt [THEN conjunct1, rule_format, OF stub_deriveKey enc] by blast
  from rt [THEN conjunct2, THEN conjunct1, rule_format, OF env] plain_text_secret
  have "decryptString ?P ?cm (es_encryptedData env) (es_salt env) (es_iv env) (js ''right'')
      = Inr (js ''secret'')"
    by blast
  with env have A: "\<exists>env. encryptString ?P ?cm ?salt ?iv (js ''secret'') (js ''right'') = Inr env
      \<and> decryptString ?P ?cm (es_encryptedData env) (es_salt env) (es_iv env) (js ''right'')
          = Inr (js ''secret'')"
    by blast
  obtain sealed where sealed: "encryptFile ?P ?cm ?salt ?iv 0 ?f (js ''right'') = Inr sealed"
    using rt [THEN conjunct2, THEN conjunct2, THEN conjunct1, rule_format, OF stub_deriveKey enc]
    by blast
  from rt [THEN conjunct2, THEN conjunct2, THEN conjunct2, rule_format, OF sealed]
  have "decryptFile ?P ?cm (ef_encryptedData sealed) (ef_salt sealed) (ef_iv sealed) (js ''right'')
      = Inr [1, 2, 3]"
    by simp
  with sealed have B: "\<exists>sealed. encryptFile ?P ?cm ?salt ?iv 0 ?f (js ''right'') = Inr sealed
      \<and> decryptFile ?P ?cm (ef_encryptedData sealed) (ef_salt sealed) (ef_iv sealed) (js ''right'')
          = Inr [1, 2, 3]"
    by blast
  from A B show ?thesis by (intro conjI)
qed

text \<open>
  C3 does not hold for every string.  \<open>TextDecoder\<close> removes a leading U+FEFF and
  \<open>TextEncoder\<close> replaces an unpaired surrogate by U+FFFD: what \<open>decryptString\<close> returns
  for the sealed text U+FEFF \<open>hi\<close> is \<open>hi\<close>, and for the sealed text U+D800 it is U+FFFD.
\<close>

theorem sealed_text_comes_back_changed:
  "(\<exists>env. encryptString stub_platform CryptoManager_constructor (replicate 16 1) (replicate 12 2)
        [0xFEFF, 0x68, 0x69] (js ''right'') = Inr env
      \<and> decryptString stub_platform CryptoManager_constructor (es_encryptedData env) (es_salt env)
          (es_iv env) (js ''right'') = Inr [0x68, 0x69])
   \<and> (\<exists>env. encryptString stub_platform CryptoManager_constructor (replicate 16 1) (replicate 12 2)
        [0xD800] (js ''right'') = Inr env
      \<and> decryptString stub_platform CryptoManager_constructor (es_encryptedData env) (es_salt env)
          (es_iv env) (js ''right'') = Inr [0xFFFD])
   \<and> TextDecoder_decode (TextEncoder_encode [0xFEFF, 0x68, 0x69]) = [0x68, 0x69]
   \<and> TextDecoder_decode (TextEncoder_encode [0xD800]) = [0xFFFD]"
proof -
  let ?P = stub_platform
  let ?cm = CryptoManager_constructor
  let ?salt = "replicate 16 1 :: byte list"
  let ?iv = "replicate 12 2 :: byte list"
  have d1: "TextDecoder_decode (TextEncoder_encode [0xFEFF, 0x68, 0x69]) = [0x68, 0x69]"
    by (simp add: decode_encode_any surrogate_defs utf16_encode_cp_def)
  have d2: "TextDecoder_decode (TextEncoder_encode [0xD800]) = [0xFFFD]"
    by (simp add: decode_encode_any surrogate_defs utf16_encode_cp_def)
  have A: "\<exists>env. encryptString ?P ?cm ?salt ?iv [0xFEFF, 0x68, 0x69] (js ''right'') = Inr env
      \<and> decryptString ?P ?cm (es_encryptedData env) (es_salt env) (es_iv env) (js ''right'')
          = Inr [0x68, 0x69]"
    using stub_encryptString [of ?salt ?iv "[0xFEFF, 0x68, 0x69]" "js ''right''"]
      stub_decryptString_sealed [of ?cm "TextEncoder_encode [0xFEFF, 0x68, 0x69]" "js ''right''" ?salt ?iv]
    by (simp add: d1)
  have B: "\<exists>env. encryptString ?P ?cm ?salt ?iv [0xD800] (js ''right'') = Inr env
      \<and> decryptString ?P ?cm (es_encryptedData env) (es_salt env) (es_iv env) (js ''right'')
          = Inr [0xFFFD]"
    using stub_encryptString [of ?salt ?iv "[0xD800]" "js ''right''"]
      stub_decryptString_sealed [of ?cm "TextEncoder_encode [0xD800]" "js ''right''" ?salt ?iv]
    by (simp add: d2)
  from A B d1 d2 show ?thesis by (intro conjI)
qed

end
